(* ===== verification/Prelude.thy ===== *)
theory Prelude
  imports Main "HOL-Library.AList" "HOL-Library.Multiset" "HOL-Library.Sublist"
begin

text \<open>
  Shared ground of the development: the collections of simplification rules, facts on
  association lists (the model of Go maps), and the reachable states
  of a labelled transition function with the invariant rule every state machine of the
  development uses.
\<close>

named_theorems chan_defs \<open>the operations on Go channels\<close>

section \<open>Go maps as association lists\<close>

text \<open>
  A Go map is an association list with distinct keys. Go visits a map in an unspecified
  order, so code that ranges over a map takes the order of the visit as an argument: a
  list of keys that is a permutation of the keys of the map (\<open>range_order\<close>).
\<close>

type_synonym ('k, 'v) gomap = "('k \<times> 'v) list"

definition gm_keys :: "('k, 'v) gomap \<Rightarrow> 'k list" where
  "gm_keys m = map fst m"

definition gm_wf :: "('k, 'v) gomap \<Rightarrow> bool" where
  "gm_wf m \<longleftrightarrow> distinct (gm_keys m)"

definition gm_get :: "('k, 'v) gomap \<Rightarrow> 'k \<Rightarrow> 'v option" where
  "gm_get m k = map_of m k"

definition gm_put :: "'k \<Rightarrow> 'v \<Rightarrow> ('k, 'v) gomap \<Rightarrow> ('k, 'v) gomap" where
  "gm_put k v m = AList.update k v m"

definition gm_del :: "'k \<Rightarrow> ('k, 'v) gomap \<Rightarrow> ('k, 'v) gomap" where
  "gm_del k m = AList.delete k m"

definition range_order :: "'k list \<Rightarrow> ('k, 'v) gomap \<Rightarrow> bool" where
  "range_order ord m \<longleftrightarrow> mset ord = mset (gm_keys m)"

lemma gm_get_Nil [simp]: "gm_get [] k = None"
  by (simp add: gm_get_def)

lemma gm_wf_Nil [simp]: "gm_wf []"
  by (simp add: gm_wf_def gm_keys_def)

lemma gm_keys_Nil [simp]: "gm_keys [] = []"
  by (simp add: gm_keys_def)

lemma gm_get_put [simp]:
  "gm_get (gm_put k v m) k' = (if k' = k then Some v else gm_get m k')"
  by (simp add: gm_get_def gm_put_def update_conv)

lemma gm_get_del [simp]:
  "gm_get (gm_del k m) k' = (if k' = k then None else gm_get m k')"
  by (simp add: gm_get_def gm_del_def delete_conv')

lemma gm_get_del_fun: "gm_get (gm_del k m) = (gm_get m)(k := None)"
  by (rule ext) simp

lemma gm_wf_put [simp, intro]: "gm_wf m \<Longrightarrow> gm_wf (gm_put k v m)"
  by (simp add: gm_wf_def gm_keys_def gm_put_def distinct_update)

lemma gm_wf_del [simp, intro]: "gm_wf m \<Longrightarrow> gm_wf (gm_del k m)"
  by (simp add: gm_wf_def gm_keys_def gm_del_def distinct_delete)

lemma gm_get_eq_map_of: "gm_get m = map_of m"
  by (rule ext) (simp add: gm_get_def)

lemma set_gm_keys: "set (gm_keys m) = dom (gm_get m)"
  by (simp add: gm_keys_def gm_get_eq_map_of dom_map_of_conv_image_fst)

lemma card_dom_gm_get: "gm_wf m \<Longrightarrow> card (dom (gm_get m)) = length m"
  by (metis distinct_card gm_keys_def gm_wf_def length_map set_gm_keys)

lemma gm_get_Some_iff: "gm_wf m \<Longrightarrow> gm_get m k = Some v \<longleftrightarrow> (k, v) \<in> set m"
  by (simp add: gm_wf_def gm_keys_def gm_get_def)

lemma gm_get_in_set: "gm_get m k = Some v \<Longrightarrow> (k, v) \<in> set m"
  by (simp add: gm_get_def map_of_SomeD)

lemma gm_get_None_iff: "gm_get m k = None \<longleftrightarrow> k \<notin> set (gm_keys m)"
  by (auto simp: set_gm_keys dom_def)

lemma gm_empty_iff: "m = [] \<longleftrightarrow> gm_get m = Map.empty"
  by (simp add: gm_get_eq_map_of)

lemma range_order_set: "range_order ord m \<Longrightarrow> set ord = dom (gm_get m)"
  by (metis range_order_def set_gm_keys set_mset_mset)

lemma range_order_distinct: "range_order ord m \<Longrightarrow> gm_wf m \<Longrightarrow> distinct ord"
  by (metis range_order_def gm_wf_def mset_eq_imp_distinct_iff)

lemma range_order_length: "range_order ord m \<Longrightarrow> length ord = length m"
  by (metis range_order_def gm_keys_def length_map size_mset)

lemma range_order_refl [simp, intro]: "range_order (gm_keys m) m"
  by (simp add: range_order_def)

text \<open>A range may visit any given keys first.\<close>

lemma range_order_first:
  assumes "gm_wf m" "distinct ks" "set ks \<subseteq> dom (gm_get m)"
  shows "range_order (ks @ filter (\<lambda>k. k \<notin> set ks) (gm_keys m)) m"
proof -
  have "distinct (ks @ filter (\<lambda>k. k \<notin> set ks) (gm_keys m))"
    using assms(1,2) by (auto simp: gm_wf_def)
  moreover have "set (ks @ filter (\<lambda>k. k \<notin> set ks) (gm_keys m)) = set (gm_keys m)"
    using assms(3) by (auto simp: set_gm_keys)
  ultimately show ?thesis
    using assms(1) by (simp only: range_order_def gm_wf_def flip: set_eq_iff_mset_eq_distinct)
qed

section \<open>Removing a list element\<close>

definition drop_nth :: "nat \<Rightarrow> 'a list \<Rightarrow> 'a list" where
  "drop_nth i xs = take i xs @ drop (Suc i) xs"

lemma mset_drop_nth:
  assumes "i < length xs"
  shows "mset (drop_nth i xs) = mset xs - {#xs ! i#}"
proof -
  have "mset xs = mset (take i xs @ xs ! i # drop (Suc i) xs)"
    using assms by (simp only: id_take_nth_drop [symmetric])
  then show ?thesis by (simp add: drop_nth_def)
qed

lemma suffix_map_inj: "inj f \<Longrightarrow> suffix (map f xs) (map f ys) \<Longrightarrow> suffix xs ys"
  by (auto simp: suffix_def map_eq_append_conv)

lemma map_drop_nth: "map f (drop_nth i xs) = drop_nth i (map f xs)"
  by (simp add: drop_nth_def take_map drop_map)

text \<open>The goroutines of a system, a list, seen as a multiset.\<close>

lemma goroutine_at:
  assumes "k < length ts"
  shows "f (ts ! k) \<in># mset (map f ts)"
    and "mset (map f (ts[k := y])) = add_mset (f y) (mset (map f ts) - {#f (ts ! k)#})"
    and "mset (map f (drop_nth k ts)) = mset (map f ts) - {#f (ts ! k)#}"
  using assms by (simp_all add: map_update mset_update map_drop_nth mset_drop_nth)

section \<open>Transition systems and invariants\<close>

text \<open>
  A component that several goroutines share is a labelled transition function
  \<open>step :: 'l \<Rightarrow> 's \<Rightarrow> 's option\<close>: the label names the goroutine that moves and every
  choice the scheduler, the clock or the environment makes; \<open>None\<close> says the step is not
  enabled. \<open>run_steps\<close> executes a schedule, \<open>reach\<close> is the set of states some schedule
  leads to.
\<close>

inductive reach :: "('l \<Rightarrow> 's \<Rightarrow> 's option) \<Rightarrow> 's \<Rightarrow> 's \<Rightarrow> bool" for step and s0 where
  reach_init: "reach step s0 s0"
| reach_step: "reach step s0 s \<Longrightarrow> step l s = Some s' \<Longrightarrow> reach step s0 s'"

fun run_steps :: "('l \<Rightarrow> 's \<Rightarrow> 's option) \<Rightarrow> 'l list \<Rightarrow> 's \<Rightarrow> 's option" where
  "run_steps step [] s = Some s"
| "run_steps step (l # ls) s =
     (case step l s of None \<Rightarrow> None | Some s' \<Rightarrow> run_steps step ls s')"

lemma run_steps_reach_from:
  "reach step s0 s \<Longrightarrow> run_steps step ls s = Some s' \<Longrightarrow> reach step s0 s'"
proof (induction ls arbitrary: s)
  case Nil
  then show ?case by simp
next
  case (Cons l ls)
  from Cons.prems(2) obtain u where u: "step l s = Some u" "run_steps step ls u = Some s'"
    by (auto split: option.splits)
  from Cons.prems(1) u(1) have "reach step s0 u" by (rule reach_step)
  then show ?case using u(2) by (rule Cons.IH)
qed

lemma run_steps_reach: "run_steps step ls s0 = Some s \<Longrightarrow> reach step s0 s"
  using reach_init by (rule run_steps_reach_from)

text \<open>A schedule of a part is a schedule of the whole.\<close>

lemma run_steps_embed:
  assumes "\<And>l u u'. step l u = Some u' \<Longrightarrow> step' (f l) (emb u) = Some (emb u')"
  shows "run_steps step ls u = Some u' \<Longrightarrow> run_steps step' (map f ls) (emb u) = Some (emb u')"
  by (induction ls arbitrary: u) (auto simp: assms split: option.splits)

lemma run_steps_append:
  "run_steps step (ls @ ls') s = Option.bind (run_steps step ls s) (run_steps step ls')"
  by (induction ls arbitrary: s) (auto split: option.splits)

text \<open>A schedule can be run and ends in a state with the property; witnesses evaluate it.\<close>

definition ends_in :: "('l \<Rightarrow> 's \<Rightarrow> 's option) \<Rightarrow> 'l list \<Rightarrow> 's \<Rightarrow> ('s \<Rightarrow> bool) \<Rightarrow> bool" where
  "ends_in step ls s P = (case run_steps step ls s of None \<Rightarrow> False | Some s' \<Rightarrow> P s')"

lemma ends_inE:
  assumes "ends_in step ls s P"
  obtains s' where "run_steps step ls s = Some s'" "reach step s s'" "P s'"
  using assms that run_steps_reach unfolding ends_in_def by (metis not_None_eq option.simps(4,5))

text \<open>The invariant rule, as a locale: whoever shows that one step keeps a property gets it
  in every reachable state.\<close>

locale invariant_system =
  fixes step :: "'l \<Rightarrow> 's \<Rightarrow> 's option"
    and Inv :: "'s \<Rightarrow> bool"
  assumes step_keeps: "Inv s \<Longrightarrow> step l s = Some s' \<Longrightarrow> Inv s'"
begin

lemma reach_keeps: "reach step s0 s \<Longrightarrow> Inv s0 \<Longrightarrow> Inv s"
  by (induction rule: reach.induct) (auto intro: step_keeps)

lemma run_keeps: "run_steps step ls s0 = Some s \<Longrightarrow> Inv s0 \<Longrightarrow> Inv s"
  using run_steps_reach reach_keeps by metis

end

end
