(* ===== verification/Go_Time.thy ===== *)
theory Go_Time
  imports Go_Strings
begin

text \<open>
  \<open>Time.UTC().Format("2006-01-02T15:04:05Z")\<close>: a time is its number of seconds since the
  Unix epoch (the layout prints nothing finer), the date is the proleptic Gregorian one.
  The calendar counts years from 1 March, in cycles of 400 years, centuries, four-year
  periods and years. The facts: every field is in its range, and the printed text determines
  the time.
\<close>

section \<open>The calendar\<close>

record civil =
  cv_year :: int
  cv_month :: int
  cv_day :: int

definition year_of_cycle :: "int \<Rightarrow> int \<times> int" where
  "year_of_cycle doe =
     (let c = min (doe div 36524) 3; doc = doe - c * 36524;
          q = doc div 1461; doq = doc - q * 1461;
          y = min (doq div 365) 3
      in (100 * c + 4 * q + y, doq - y * 365))"

definition civil_from_days :: "int \<Rightarrow> civil" where
  "civil_from_days days =
     (let z = days + 719468; era = z div 146097; doe = z mod 146097;
          (yoe, doy) = year_of_cycle doe;
          mp = (5 * doy + 2) div 153;
          d = doy - (153 * mp + 2) div 5 + 1;
          m = (if mp < 10 then mp + 3 else mp - 9);
          y = yoe + era * 400
      in \<lparr>cv_year = (if m \<le> 2 then y + 1 else y), cv_month = m, cv_day = d\<rparr>)"

definition days_from_civil :: "civil \<Rightarrow> int" where
  "days_from_civil cv =
     (let y = (if cv_month cv \<le> 2 then cv_year cv - 1 else cv_year cv);
          era = y div 400; yoe = y mod 400;
          mp = (if 2 < cv_month cv then cv_month cv - 3 else cv_month cv + 9);
          doy = (153 * mp + 2) div 5 + cv_day cv - 1;
          doe = yoe * 365 + yoe div 4 - yoe div 100 + doy
      in era * 146097 + doe - 719468)"

lemma div_between: "0 < (k::int) \<Longrightarrow> k * (x div k) \<le> x \<and> x < k * (x div k) + k"
  using mult_div_mod_eq [of k x] pos_mod_bound [of k x] pos_mod_sign [of k x] by linarith

lemma year_of_cycle_bounds:
  assumes "0 \<le> doe" "doe < 146097" "year_of_cycle doe = (yoe, doy)"
  shows "0 \<le> yoe" "yoe < 400" "0 \<le> doy" "doy \<le> 365"
    "doe = yoe * 365 + yoe div 4 - yoe div 100 + doy"
proof -
  define c where "c = min (doe div 36524) 3"
  define doc where "doc = doe - c * 36524"
  define q where "q = doc div 1461"
  define doq where "doq = doc - q * 1461"
  define y where "y = min (doq div 365) 3"
  have c: "0 \<le> c" "c \<le> 3" "0 \<le> doc" "doc \<le> 36524"
    using assms(1,2) div_between [of 36524 doe] unfolding c_def doc_def by (auto simp: min_def)
  have q: "0 \<le> q" "q \<le> 24" "0 \<le> doq" "doq \<le> 1460"
    using c(3,4) div_between [of 1461 doc] unfolding q_def doq_def by auto
  have y: "0 \<le> y" "y \<le> 3" "0 \<le> doq - y * 365" "doq - y * 365 \<le> 365"
    using q(3,4) div_between [of 365 doq] unfolding y_def by (auto simp: min_def)
  have yoe: "yoe = 100 * c + 4 * q + y" and doy: "doy = doq - y * 365"
    using assms(3) by (simp_all add: year_of_cycle_def Let_def c_def doc_def q_def doq_def y_def)
  have d: "yoe div 4 = 25 * c + q" "yoe div 100 = c"
    unfolding yoe using c q y
    by (auto intro!: int_div_pos_eq [where r = y] int_div_pos_eq [where r = "4 * q + y"])
  show "0 \<le> yoe" "yoe < 400" using c q y by (simp_all add: yoe)
  show "0 \<le> doy" "doy \<le> 365" using y by (simp_all add: doy)
  show "doe = yoe * 365 + yoe div 4 - yoe div 100 + doy"
    unfolding d unfolding yoe doy doq_def doc_def by simp
qed

lemma month_day_bounds:
  fixes doy :: int
  assumes "0 \<le> doy" "doy \<le> 365" "mp = (5 * doy + 2) div 153"
  shows "0 \<le> mp" "mp \<le> 11"
    "1 \<le> doy - (153 * mp + 2) div 5 + 1" "doy - (153 * mp + 2) div 5 + 1 \<le> 31"
proof -
  define k where "k = (153 * mp + 2) div 5"
  have mp: "153 * mp \<le> 5 * doy + 2" "5 * doy + 2 < 153 * mp + 153"
    unfolding assms(3) by presburger+
  have k: "5 * k \<le> 153 * mp + 2" "153 * mp + 2 < 5 * k + 5"
    unfolding k_def by presburger+
  show "0 \<le> mp" "mp \<le> 11" using assms(1,2) mp by linarith+
  show "1 \<le> doy - (153 * mp + 2) div 5 + 1" "doy - (153 * mp + 2) div 5 + 1 \<le> 31"
    unfolding k_def [symmetric] using mp k by linarith+
qed

lemma civil_from_days_bounds:
  "1 \<le> cv_month (civil_from_days n) \<and> cv_month (civil_from_days n) \<le> 12 \<and>
   1 \<le> cv_day (civil_from_days n) \<and> cv_day (civil_from_days n) \<le> 31"
proof -
  obtain yoe doy where yd: "year_of_cycle ((n + 719468) mod 146097) = (yoe, doy)"
    by (cases "year_of_cycle ((n + 719468) mod 146097)")
  have "0 \<le> doy" "doy \<le> 365"
    using year_of_cycle_bounds [OF _ _ yd] by simp_all
  note md = month_day_bounds [OF this refl]
  from yd md show ?thesis
    by (auto simp: civil_from_days_def Let_def)
qed

text \<open>The inverse on a date counted from March: the month and the leap rule are undone.\<close>

lemma days_from_civil_march:
  assumes "0 \<le> yoe" "yoe < 400" "0 \<le> mp" "mp \<le> 11"
    and "m = (if mp < 10 then mp + 3 else mp - 9)"
  shows "days_from_civil \<lparr>cv_year = (if m \<le> 2 then yoe + era * 400 + 1 else yoe + era * 400),
      cv_month = m, cv_day = doy - (153 * mp + 2) div 5 + 1\<rparr> =
    era * 146097 + (yoe * 365 + yoe div 4 - yoe div 100 + doy) - 719468"
proof -
  have y: "(yoe + era * 400) div 400 = era" "(yoe + era * 400) mod 400 = yoe"
    using assms(1,2) by simp_all
  have m: "(if m \<le> 2 then (if m \<le> 2 then yoe + era * 400 + 1 else yoe + era * 400) - 1
            else (if m \<le> 2 then yoe + era * 400 + 1 else yoe + era * 400)) = yoe + era * 400"
    by simp
  have mp: "(if 2 < m then m - 3 else m + 9) = mp" using assms(3-5) by auto
  show ?thesis
    unfolding days_from_civil_def Let_def civil.simps m mp y by linarith
qed

lemma days_civil_inverse: "days_from_civil (civil_from_days n) = n"
proof -
  define era where "era = (n + 719468) div 146097"
  obtain yoe doy where yd: "year_of_cycle ((n + 719468) mod 146097) = (yoe, doy)"
    by (cases "year_of_cycle ((n + 719468) mod 146097)")
  have y: "0 \<le> yoe" "yoe < 400" "0 \<le> doy" "doy \<le> 365"
    "(n + 719468) mod 146097 = yoe * 365 + yoe div 4 - yoe div 100 + doy"
    by (rule year_of_cycle_bounds [OF _ _ yd]; simp)+
  note md = month_day_bounds [OF y(3,4) refl]
  have "days_from_civil (civil_from_days n) =
        era * 146097 + (yoe * 365 + yoe div 4 - yoe div 100 + doy) - 719468"
    unfolding civil_from_days_def Let_def yd prod.case era_def
    by (rule days_from_civil_march [OF y(1,2) md(1,2) refl])
  also have "\<dots> = era * 146097 + (n + 719468) mod 146097 - 719468"
    unfolding y(5) by (rule refl)
  also have "\<dots> = n"
    using div_mult_mod_eq [of "n + 719468" 146097] unfolding era_def by linarith
  finally show ?thesis .
qed

section \<open>Formatting\<close>

definition pad_digits :: "nat \<Rightarrow> int \<Rightarrow> string" where
  "pad_digits w i =
     (let ds = nat_digits (nat \<bar>i\<bar>); z = replicate (w - length ds) CHR ''0'' @ ds
      in if i < 0 then CHR ''-'' # z else z)"

definition Format_UTC :: "int \<Rightarrow> string" where
  "Format_UTC t =
     (let cv = civil_from_days (t div 86400); r = t mod 86400
      in pad_digits 4 (cv_year cv) @ ''-'' @ pad_digits 2 (cv_month cv) @ ''-'' @
         pad_digits 2 (cv_day cv) @ ''T'' @ pad_digits 2 (r div 3600) @ '':'' @
         pad_digits 2 (r mod 3600 div 60) @ '':'' @ pad_digits 2 (r mod 60) @ ''Z'')"

text \<open>The reader of the format, to say what the text determines.\<close>

definition parse_field :: "string \<Rightarrow> nat \<Rightarrow> nat \<Rightarrow> int option" where
  "parse_field s i w = parse_digits (take w (drop i s)) 0"

definition Parse_UTC :: "string \<Rightarrow> int option" where
  "Parse_UTC s =
     (case (parse_field s 0 4, parse_field s 5 2, parse_field s 8 2,
            parse_field s 11 2, parse_field s 14 2, parse_field s 17 2) of
        (Some y, Some mo, Some d, Some h, Some mi, Some sec) \<Rightarrow>
          Some (days_from_civil \<lparr>cv_year = y, cv_month = mo, cv_day = d\<rparr> * 86400 +
                h * 3600 + mi * 60 + sec)
      | _ \<Rightarrow> None)"

lemma nat_digits_length: "n < 10 ^ w \<Longrightarrow> 0 < w \<Longrightarrow> length (nat_digits n) \<le> w"
proof (induction n arbitrary: w rule: nat_digits.induct)
  case (1 n)
  show ?case
  proof (cases "n < 10")
    case True
    with "1.prems" show ?thesis by (simp add: nat_digits.simps [of n])
  next
    case False
    with "1.prems" obtain w' where w: "w = Suc w'" "0 < w'"
      by (cases w; cases "w - 1") auto
    with "1.prems" have "n div 10 < 10 ^ w'" by (simp add: less_mult_imp_div_less mult.commute)
    with "1.IH" False w have "length (nat_digits (n div 10)) \<le> w'" by simp
    with False w show ?thesis by (simp add: nat_digits.simps [of n])
  qed
qed

lemma parse_digits_zeros: "parse_digits (replicate k CHR ''0'' @ s) 0 = parse_digits s 0"
  by (induction k) (auto simp: digit_val_def)

lemma pad_digits_length: "0 \<le> i \<Longrightarrow> i < 10 ^ w \<Longrightarrow> 0 < w \<Longrightarrow> length (pad_digits w i) = w"
  using nat_digits_length [of "nat i" w]
  by (simp add: pad_digits_def Let_def nat_less_iff)

lemma pad_digits_2: "0 \<le> i \<Longrightarrow> i < 100 \<Longrightarrow> length (pad_digits 2 i) = 2"
  by (rule pad_digits_length) simp_all

lemma pad_digits_4: "0 \<le> i \<Longrightarrow> i \<le> 9999 \<Longrightarrow> length (pad_digits 4 i) = 4"
  by (rule pad_digits_length) simp_all

lemma parse_pad_digits: "0 \<le> i \<Longrightarrow> parse_digits (pad_digits w i) 0 = Some i"
  by (simp add: pad_digits_def Let_def parse_digits_zeros parse_nat_digits)

lemma Format_fields:
  assumes "length y = 4" "length mo = 2" "length d = 2" "length h = 2" "length mi = 2" "length sec = 2"
    and "s = y @ ''-'' @ mo @ ''-'' @ d @ ''T'' @ h @ '':'' @ mi @ '':'' @ sec @ ''Z''"
  shows "take 4 s = y" "take 2 (drop 5 s) = mo" "take 2 (drop 8 s) = d"
    "take 2 (drop 11 s) = h" "take 2 (drop 14 s) = mi" "take 2 (drop 17 s) = sec" "length s = 20"
  using assms by simp_all

lemma clock_fields:
  fixes r :: int
  assumes "0 \<le> r" "r < 86400"
  shows "0 \<le> r div 3600" "r div 3600 < 100" "0 \<le> r mod 3600 div 60" "r mod 3600 div 60 < 100"
    "0 \<le> r mod 60" "r mod 60 < 100" "r div 3600 * 3600 + r mod 3600 div 60 * 60 + r mod 60 = r"
proof -
  have "r mod 3600 mod 60 = r mod 60" by (rule mod_mod_cancel) simp
  then show "r div 3600 * 3600 + r mod 3600 div 60 * 60 + r mod 60 = r"
    using div_mult_mod_eq [of r 3600] div_mult_mod_eq [of "r mod 3600" 60] by linarith
  have "r mod 3600 < 3600" "0 \<le> r mod 3600" "r mod 60 < 60" "0 \<le> r mod 60" by simp_all
  then show "0 \<le> r div 3600" "r div 3600 < 100" "0 \<le> r mod 3600 div 60" "r mod 3600 div 60 < 100"
    "0 \<le> r mod 60" "r mod 60 < 100"
    using assms div_between [of 3600 r] div_between [of 60 "r mod 3600"] by linarith+
qed

lemma Parse_Format:
  assumes "0 \<le> cv_year (civil_from_days (t div 86400))"
    and "cv_year (civil_from_days (t div 86400)) \<le> 9999"
  shows "Parse_UTC (Format_UTC t) = Some t" "length (Format_UTC t) = 20"
proof -
  define cv where "cv = civil_from_days (t div 86400)"
  define r where "r = t mod 86400"
  have cv: "1 \<le> cv_month cv" "cv_month cv \<le> 12" "1 \<le> cv_day cv" "cv_day cv \<le> 31"
    "0 \<le> cv_year cv" "cv_year cv \<le> 9999"
    using civil_from_days_bounds assms unfolding cv_def by auto
  have "0 \<le> r" "r < 86400" by (simp_all add: r_def)
  note f = clock_fields [OF this]
  have len: "length (pad_digits 4 (cv_year cv)) = 4" "length (pad_digits 2 (cv_month cv)) = 2"
    "length (pad_digits 2 (cv_day cv)) = 2" "length (pad_digits 2 (r div 3600)) = 2"
    "length (pad_digits 2 (r mod 3600 div 60)) = 2" "length (pad_digits 2 (r mod 60)) = 2"
    using cv f by (intro pad_digits_2 pad_digits_4; linarith)+
  have p: "parse_digits (pad_digits 4 (cv_year cv)) 0 = Some (cv_year cv)"
    "parse_digits (pad_digits 2 (cv_month cv)) 0 = Some (cv_month cv)"
    "parse_digits (pad_digits 2 (cv_day cv)) 0 = Some (cv_day cv)"
    "parse_digits (pad_digits 2 (r div 3600)) 0 = Some (r div 3600)"
    "parse_digits (pad_digits 2 (r mod 3600 div 60)) 0 = Some (r mod 3600 div 60)"
    "parse_digits (pad_digits 2 (r mod 60)) 0 = Some (r mod 60)"
    using cv f by (intro parse_pad_digits; linarith)+
  have fmt: "Format_UTC t = pad_digits 4 (cv_year cv) @ ''-'' @ pad_digits 2 (cv_month cv) @ ''-'' @
         pad_digits 2 (cv_day cv) @ ''T'' @ pad_digits 2 (r div 3600) @ '':'' @
         pad_digits 2 (r mod 3600 div 60) @ '':'' @ pad_digits 2 (r mod 60) @ ''Z''"
    unfolding Format_UTC_def Let_def cv_def r_def by (rule refl)
  note ff = Format_fields [OF len fmt]
  show "length (Format_UTC t) = 20" by (rule ff(7))
  have eta: "\<lparr>cv_year = cv_year cv, cv_month = cv_month cv, cv_day = cv_day cv\<rparr> = cv" by simp
  have "Parse_UTC (Format_UTC t) =
      Some (days_from_civil cv * 86400 + r div 3600 * 3600 + r mod 3600 div 60 * 60 + r mod 60)"
    by (simp only: Parse_UTC_def parse_field_def drop_0 ff p prod.case option.case eta)
  also have "days_from_civil cv * 86400 + r div 3600 * 3600 + r mod 3600 div 60 * 60 + r mod 60 = t"
    using f(7) div_mult_mod_eq [of t 86400] unfolding cv_def r_def days_civil_inverse by linarith
  finally show "Parse_UTC (Format_UTC t) = Some t" .
qed

end
