(* ===== verification/Metadata.thy ===== *)
theory Metadata
  imports Go_Time
begin

text \<open>
  Package \<open>metadata\<close> (\<open>src/internal/metadata/extract.go\<close>): the instance metadata extracted
  from a Kubernetes object. The object itself is client-go's \<open>unstructured.Unstructured\<close>,
  which the code reads only through accessors: the record \<open>unstructured\<close> holds what they
  return. A Go map that may be nil is an option of an association list.
\<close>

section \<open>Objects and instances\<close>

type_synonym strmap = "(string, string) gomap option"

definition map_entries :: "strmap \<Rightarrow> (string, string) gomap" where
  "map_entries m = (case m of None \<Rightarrow> [] | Some es \<Rightarrow> es)"

record unstructured =
  GetNamespace :: string
  GetAPIVersion :: string
  GetKind :: string
  GetName :: string
  GetLabels :: strmap
  GetAnnotations :: strmap
  GetCreationTimestamp :: int
  GetResourceVersion :: string

record ResourceInstance =
  ri_ID :: string
  ri_Namespace :: string
  ri_Name :: string
  ri_Kind :: string
  ri_APIVersion :: string
  ri_APIGroup :: string
  ri_Labels :: strmap
  ri_Annotations :: strmap
  ri_CreatedAt :: string

section \<open>Extraction\<close>

definition buildID :: "string \<Rightarrow> string \<Rightarrow> string \<Rightarrow> string \<Rightarrow> string" where
  "buildID namespace apiVersion kind name =
     namespace @ ''/'' @ apiVersion @ ''/'' @ kind @ ''/'' @ name"

definition extractAPIGroup :: "string \<Rightarrow> string" where
  "extractAPIGroup apiVersion =
     (let parts = SplitN2 apiVersion CHR ''/'' in
      if length parts = 2 then parts ! 0 else [])"

definition skipAnnotationPrefixes :: "string list" where
  "skipAnnotationPrefixes =
     [''kubectl.kubernetes.io/'', ''meta.helm.sh/'', ''helm.sh/'', ''deployment.kubernetes.io/'',
      ''control-plane.alpha.kubernetes.io/'', ''kubernetes.io/'']"

fun skip_loop :: "string list \<Rightarrow> string \<Rightarrow> bool" where
  "skip_loop [] key = False"
| "skip_loop (p # ps) key = (if HasPrefix key p then True else skip_loop ps key)"

definition shouldSkipAnnotation :: "string \<Rightarrow> bool" where
  "shouldSkipAnnotation key = skip_loop skipAnnotationPrefixes key"

fun filter_loop :: "(string, string) gomap \<Rightarrow> (string, string) gomap \<Rightarrow> (string, string) gomap" where
  "filter_loop [] filtered = filtered"
| "filter_loop ((key, value) # rest) filtered =
     (if shouldSkipAnnotation key then filter_loop rest filtered
      else filter_loop rest (gm_put key value filtered))"

definition filterAnnotations :: "strmap \<Rightarrow> strmap" where
  "filterAnnotations annotations =
     (if length (map_entries annotations) = 0 then None
      else let filtered = filter_loop (map_entries annotations) []
           in if length filtered = 0 then None else Some filtered)"

definition Extract :: "unstructured \<Rightarrow> ResourceInstance" where
  "Extract obj =
     (let namespace = (if GetNamespace obj = [] then ''_cluster'' else GetNamespace obj);
          apiVersion = GetAPIVersion obj;
          kind = GetKind obj;
          name = GetName obj
      in \<lparr>ri_ID = buildID namespace apiVersion kind name,
          ri_Namespace = namespace,
          ri_Name = name,
          ri_Kind = kind,
          ri_APIVersion = apiVersion,
          ri_APIGroup = extractAPIGroup apiVersion,
          ri_Labels = GetLabels obj,
          ri_Annotations = filterAnnotations (GetAnnotations obj),
          ri_CreatedAt = Format_UTC (GetCreationTimestamp obj)\<rparr>)"

section \<open>Identifiers\<close>

lemma Split_append_sep: "Split (s @ c # t) c = Split s c @ Split t c"
  by (induction s) (auto split: list.splits)

lemma Split_inj: "Split s c = Split t c \<Longrightarrow> s = t"
  by (metis Join_Split)

lemma Split_buildID:
  assumes "CHR ''/'' \<notin> set ns" "CHR ''/'' \<notin> set kind" "CHR ''/'' \<notin> set name"
  shows "Split (buildID ns av kind name) CHR ''/'' = ns # Split av CHR ''/'' @ [kind, name]"
  using assms by (simp add: buildID_def Split_append Split_append_sep Split_no_sep)

lemma buildID_inj:
  assumes "buildID ns av kind name = buildID ns' av' kind' name'"
    and "CHR ''/'' \<notin> set ns" "CHR ''/'' \<notin> set kind" "CHR ''/'' \<notin> set name"
    and "CHR ''/'' \<notin> set ns'" "CHR ''/'' \<notin> set kind'" "CHR ''/'' \<notin> set name'"
  shows "ns = ns' \<and> av = av' \<and> kind = kind' \<and> name = name'"
proof -
  have "ns # Split av CHR ''/'' @ [kind, name] = ns' # Split av' CHR ''/'' @ [kind', name']"
    using Split_buildID [OF assms(2-4)] Split_buildID [OF assms(5-7)] assms(1) by metis
  then show ?thesis by (auto dest: Split_inj)
qed

lemma Extract_sel:
  "ri_ID (Extract obj) =
     buildID (ri_Namespace (Extract obj)) (GetAPIVersion obj) (GetKind obj) (GetName obj)"
  "ri_Namespace (Extract obj) = (if GetNamespace obj = [] then ''_cluster'' else GetNamespace obj)"
  "ri_Labels (Extract obj) = GetLabels obj"
  "ri_Annotations (Extract obj) = filterAnnotations (GetAnnotations obj)"
  "ri_CreatedAt (Extract obj) = Format_UTC (GetCreationTimestamp obj)"
  "ri_APIGroup (Extract obj) = extractAPIGroup (GetAPIVersion obj)"
  "ri_Kind (Extract obj) = GetKind obj" "ri_Name (Extract obj) = GetName obj"
  "ri_APIVersion (Extract obj) = GetAPIVersion obj"
  by (simp_all add: Extract_def Let_def)

definition slash_free :: "unstructured \<Rightarrow> bool" where
  "slash_free obj \<longleftrightarrow>
     CHR ''/'' \<notin> set (GetNamespace obj) \<and> CHR ''/'' \<notin> set (GetKind obj) \<and>
     CHR ''/'' \<notin> set (GetName obj)"

section \<open>Annotations\<close>

lemma skip_loop_iff: "skip_loop ps key \<longleftrightarrow> (\<exists>p \<in> set ps. prefix p key)"
  by (induction ps) (auto simp: HasPrefix_def)

lemma filter_loop_get:
  "distinct (map fst es) \<Longrightarrow>
   gm_get (filter_loop es acc) k =
     (if \<not> shouldSkipAnnotation k \<and> gm_get es k \<noteq> None then gm_get es k else gm_get acc k)"
  by (induction es acc rule: filter_loop.induct)
    (auto simp: gm_get_def gm_put_def update_conv map_of_eq_None_iff image_iff split: if_splits)

lemma filter_loop_wf: "gm_wf acc \<Longrightarrow> gm_wf (filter_loop es acc)"
  by (induction es acc rule: filter_loop.induct) auto

definition strmap_wf :: "strmap \<Rightarrow> bool" where
  "strmap_wf m \<longleftrightarrow> gm_wf (map_entries m)"

lemma filterAnnotations_get:
  assumes "strmap_wf m"
  shows "gm_get (map_entries (filterAnnotations m)) k =
    (if shouldSkipAnnotation k then None else gm_get (map_entries m) k)"
proof -
  have d: "distinct (map fst (map_entries m))"
    using assms by (simp add: strmap_wf_def gm_wf_def gm_keys_def)
  have "gm_get (map_entries (filterAnnotations m)) k = gm_get (filter_loop (map_entries m) []) k"
    by (auto simp: filterAnnotations_def map_entries_def Let_def)
  also have "\<dots> = (if shouldSkipAnnotation k then None else gm_get (map_entries m) k)"
    by (auto simp: filter_loop_get [OF d])
  finally show ?thesis .
qed

lemma filterAnnotations_wf: "strmap_wf (filterAnnotations m)"
  by (auto simp: strmap_wf_def filterAnnotations_def map_entries_def Let_def filter_loop_wf)

end
