(* ===== verification/Metadata_Properties.thy ===== *)
theory Metadata_Properties
  imports Metadata
begin

text \<open>
  What the extraction of metadata promises: identifiers that tell resources apart, the API group,
  the annotations that are kept, and a creation time that can be read back.
\<close>

definition sample_object :: "string \<Rightarrow> string \<Rightarrow> unstructured" where
  "sample_object ns name =
     \<lparr>GetNamespace = ns, GetAPIVersion = ''apps/v1'', GetKind = ''Deployment'', GetName = name,
      GetLabels = None, GetAnnotations = Some [(''kubernetes.io/x'', ''1''), (''team'', ''a'')],
      GetCreationTimestamp = 1700000000, GetResourceVersion = ''1''\<rparr>"

text \<open>C30. Resource identifiers are unique: two objects whose namespace, kind and name contain no slash
  (the API server admits no other) have the same ID only if they agree in namespace, API version,
  kind and name. The API version may contain a slash. An object without a namespace counts as one in the
  namespace \<open>_cluster\<close>.\<close>

theorem Extract_ID_unique:
  assumes "slash_free a" "slash_free b" "ri_ID (Extract a) = ri_ID (Extract b)"
  shows "ri_Namespace (Extract a) = ri_Namespace (Extract b) \<and> GetAPIVersion a = GetAPIVersion b \<and>
    GetKind a = GetKind b \<and> GetName a = GetName b"
proof (rule buildID_inj)
  show "buildID (ri_Namespace (Extract a)) (GetAPIVersion a) (GetKind a) (GetName a) =
      buildID (ri_Namespace (Extract b)) (GetAPIVersion b) (GetKind b) (GetName b)"
    using assms(3) by (simp only: Extract_sel(1))
qed (use assms(1,2) in \<open>auto simp: slash_free_def Extract_sel(2)\<close>)

theorem Extract_ID_unique_witness:
  "ri_ID (Extract (sample_object '''' ''web'')) = ''_cluster/apps/v1/Deployment/web'' \<and>
   ri_ID (Extract (sample_object '''' ''web'')) \<noteq> ri_ID (Extract (sample_object '''' ''db''))"
proof -
  have s: "slash_free (sample_object '''' ''web'')" "slash_free (sample_object '''' ''db'')"
    by (simp_all add: slash_free_def sample_object_def)
  have "GetName (sample_object '''' ''web'') \<noteq> GetName (sample_object '''' ''db'')"
    by (simp add: sample_object_def)
  then have "ri_ID (Extract (sample_object '''' ''web'')) \<noteq> ri_ID (Extract (sample_object '''' ''db''))"
    using Extract_ID_unique [OF s] by blast
  then show ?thesis by (simp add: Extract_def Let_def buildID_def sample_object_def)
qed

text \<open>C31. The annotations of an instance are exactly those of the object whose key starts with none
  of the six skipped prefixes, each with its value; when none is left the map is nil, never an
  empty map.\<close>

theorem Extract_annotations:
  assumes "strmap_wf (GetAnnotations obj)"
  shows "gm_get (map_entries (ri_Annotations (Extract obj))) k =
      (if \<exists>p \<in> set skipAnnotationPrefixes. prefix p k then None
       else gm_get (map_entries (GetAnnotations obj)) k) \<and>
    strmap_wf (ri_Annotations (Extract obj)) \<and> ri_Annotations (Extract obj) \<noteq> Some []"
proof -
  have "shouldSkipAnnotation k \<longleftrightarrow> (\<exists>p \<in> set skipAnnotationPrefixes. prefix p k)"
    by (simp add: shouldSkipAnnotation_def skip_loop_iff)
  moreover have "filterAnnotations m \<noteq> Some []" for m
    by (simp add: filterAnnotations_def Let_def)
  ultimately show ?thesis
    using filterAnnotations_get [OF assms] filterAnnotations_wf by (simp add: Extract_sel(4))
qed

theorem Extract_annotations_witness:
  "gm_get (map_entries (ri_Annotations (Extract (sample_object '''' ''web'')))) ''team'' = Some ''a'' \<and>
   gm_get (map_entries (ri_Annotations (Extract (sample_object '''' ''web'')))) ''kubernetes.io/x'' = None"
proof -
  have wf: "strmap_wf (GetAnnotations (sample_object '''' ''web''))"
    by (simp add: strmap_wf_def map_entries_def sample_object_def gm_wf_def gm_keys_def)
  have m: "map_entries (GetAnnotations (sample_object '''' ''web'')) = [(''kubernetes.io/x'', ''1''), (''team'', ''a'')]"
    by (simp add: map_entries_def sample_object_def)
  show ?thesis
    using Extract_annotations [OF wf, of "''team''"] Extract_annotations [OF wf, of "''kubernetes.io/x''"]
    unfolding m by (simp add: gm_get_def skipAnnotationPrefixes_def)
qed

text \<open>C32. The creation time survives: the \<open>createdAt\<close> text of an instance has 20 characters and reads
  back as the second the object was created, for every year from 0 to 9999.\<close>

theorem Extract_createdAt_roundtrip:
  assumes "0 \<le> cv_year (civil_from_days (GetCreationTimestamp obj div 86400))"
    and "cv_year (civil_from_days (GetCreationTimestamp obj div 86400)) \<le> 9999"
  shows "Parse_UTC (ri_CreatedAt (Extract obj)) = Some (GetCreationTimestamp obj) \<and>
    length (ri_CreatedAt (Extract obj)) = 20"
  using Parse_Format [OF assms] by (simp add: Extract_sel(5))

theorem Extract_createdAt_roundtrip_witness:
  "Parse_UTC (ri_CreatedAt (Extract (sample_object '''' ''web''))) = Some 1700000000 \<and>
   ri_CreatedAt (Extract (sample_object '''' ''web'')) = ''2023-11-14T22:13:20Z''"
proof -
  have t: "GetCreationTimestamp (sample_object '''' ''web'') = 1700000000" by (simp add: sample_object_def)
  have "cv_year (civil_from_days (1700000000 div 86400)) = 2023" by code_simp
  then have "Parse_UTC (ri_CreatedAt (Extract (sample_object '''' ''web''))) = Some 1700000000"
    using Extract_createdAt_roundtrip [of "sample_object '''' ''web''"] by (simp add: t)
  moreover have "Format_UTC 1700000000 = ''2023-11-14T22:13:20Z''" by code_simp
  ultimately show ?thesis by (simp add: Extract_sel(5) t)
qed

text \<open>The API group of an instance is the text before the first slash of its API version, and the
  empty text for the core group, whose API version has no slash: group and version are
  recovered from every API version of the two documented forms.\<close>

lemma Extract_API_group:
  "(CHR ''/'' \<notin> set g \<longrightarrow> GetAPIVersion obj = g @ ''/'' @ v \<longrightarrow> ri_APIGroup (Extract obj) = g) \<and>
   (CHR ''/'' \<notin> set (GetAPIVersion obj) \<longrightarrow> ri_APIGroup (Extract obj) = '''')"
  by (auto simp: Extract_sel(6) extractAPIGroup_def SplitN2_append) (simp add: SplitN2_def)

end
