(* ===== verification/Resource_Filter.thy ===== *)
theory Resource_Filter
  imports Go_Strings
begin

text \<open>
  Package \<open>filter\<close> (\<open>src/internal/filter/filter.go\<close>): which discovered API resources are
  watched. \<open>APIResource\<close> is the Kubernetes discovery type with the two fields the code reads.
  The argument \<open>ulower\<close> stands for the Unicode tables of \<open>strings.ToLower\<close>.
\<close>

record APIResource =
  ar_Name :: string
  ar_Verbs :: "string list"

definition DefaultExclusions :: "string list" where
  "DefaultExclusions =
     [''events'', ''leases'', ''endpointslices'', ''componentstatuses'', ''customresourcedefinitions'']"

text \<open>A Go set is a map to \<open>true\<close>; a nil map is the empty one.\<close>

record ResourceFilter =
  watchTypes :: "(string, bool) gomap"
  excludeTypes :: "(string, bool) gomap"

fun toSet_loop :: "(string \<Rightarrow> string) \<Rightarrow> string list \<Rightarrow> (string, bool) gomap \<Rightarrow> (string, bool) gomap" where
  "toSet_loop ulower [] s = s"
| "toSet_loop ulower (item # items) s =
     toSet_loop ulower items (gm_put (ToLower ulower (TrimSpace item)) True s)"

definition toSet :: "(string \<Rightarrow> string) \<Rightarrow> string list \<Rightarrow> (string, bool) gomap" where
  "toSet ulower items = (if length items = 0 then [] else toSet_loop ulower items [])"

definition New_filter :: "(string \<Rightarrow> string) \<Rightarrow> string list \<Rightarrow> string list \<Rightarrow> ResourceFilter" where
  "New_filter ulower watch exclude =
     \<lparr>watchTypes = toSet ulower watch, excludeTypes = toSet ulower exclude\<rparr>"

fun verbs_loop :: "string list \<Rightarrow> bool \<Rightarrow> bool \<Rightarrow> bool \<times> bool" where
  "verbs_loop [] hasList hasWatch = (hasList, hasWatch)"
| "verbs_loop (verb # verbs) hasList hasWatch =
     (if verb = ''list'' then verbs_loop verbs True hasWatch
      else if verb = ''watch'' then verbs_loop verbs hasList True
      else verbs_loop verbs hasList hasWatch)"

definition supportsListWatch :: "APIResource \<Rightarrow> bool" where
  "supportsListWatch resource =
     (let (hasList, hasWatch) = verbs_loop (ar_Verbs resource) False False in hasList \<and> hasWatch)"

text \<open>Reading a missing key of a \<open>map[string]bool\<close> gives \<open>false\<close>.\<close>

definition set_has :: "(string, bool) gomap \<Rightarrow> string \<Rightarrow> bool" where
  "set_has m k = (case gm_get m k of None \<Rightarrow> False | Some b \<Rightarrow> b)"

definition ShouldWatch :: "(string \<Rightarrow> string) \<Rightarrow> ResourceFilter \<Rightarrow> APIResource \<Rightarrow> bool" where
  "ShouldWatch ulower f resource =
     (if \<not> supportsListWatch resource then False
      else let name = ToLower ulower (ar_Name resource) in
           if 0 < length (watchTypes f) then set_has (watchTypes f) name
           else \<not> set_has (excludeTypes f) name)"

section \<open>Lemmas\<close>

lemma toSet_loop_get:
  "gm_get (toSet_loop u items acc) k =
     (if k \<in> (\<lambda>i. ToLower u (TrimSpace i)) ` set items then Some True else gm_get acc k)"
  by (induction u items acc rule: toSet_loop.induct) auto

lemma toSet_get:
  "gm_get (toSet u items) k =
     (if k \<in> (\<lambda>i. ToLower u (TrimSpace i)) ` set items then Some True else None)"
  by (auto simp: toSet_def toSet_loop_get)

lemma set_has_toSet:
  "set_has (toSet u items) k \<longleftrightarrow> (\<exists>t \<in> set items. ToLower u (TrimSpace t) = k)"
  by (auto simp: set_has_def toSet_get)

lemma toSet_empty_iff: "toSet u items = [] \<longleftrightarrow> items = []"
proof
  assume "toSet u items = []"
  then have none: "gm_get (toSet u items) k = None" for k by simp
  show "items = []"
  proof (cases items)
    case (Cons i rest)
    then have "gm_get (toSet u items) (ToLower u (TrimSpace i)) = Some True"
      by (simp add: toSet_get)
    with none show ?thesis by simp
  qed
qed (simp add: toSet_def)

lemma verbs_loop_eq:
  "verbs_loop vs l w = (l \<or> ''list'' \<in> set vs, w \<or> ''watch'' \<in> set vs)"
  by (induction vs l w rule: verbs_loop.induct) auto

lemma supportsListWatch_iff:
  "supportsListWatch r \<longleftrightarrow> ''list'' \<in> set (ar_Verbs r) \<and> ''watch'' \<in> set (ar_Verbs r)"
  by (simp add: supportsListWatch_def verbs_loop_eq)

text \<open>A resource is watched exactly when it supports both \<open>list\<close> and \<open>watch\<close> and its
  lower-cased name is one of the trimmed, lower-cased names of the watch list if that list is
  not empty, and otherwise none of those of the exclude list.\<close>

lemma ShouldWatch_iff:
  "ShouldWatch u (New_filter u watch exclude) r \<longleftrightarrow>
     ''list'' \<in> set (ar_Verbs r) \<and> ''watch'' \<in> set (ar_Verbs r) \<and>
     (if watch \<noteq> []
      then \<exists>t \<in> set watch. ToLower u (TrimSpace t) = ToLower u (ar_Name r)
      else \<not> (\<exists>t \<in> set exclude. ToLower u (TrimSpace t) = ToLower u (ar_Name r)))"
  by (auto simp: ShouldWatch_def New_filter_def supportsListWatch_iff set_has_toSet
      toSet_empty_iff Let_def)

end
