(* ===== verification/Config.thy ===== *)
theory Config
  imports Go_Strings "HOL-Library.Word"
begin

text \<open>
  Package \<open>config\<close> (\<open>src/internal/config/config.go\<close>). The environment is a function from
  names to values, \<open>''''\<close> for a variable that is not set, as \<open>os.Getenv\<close> returns. A
  \<open>time.Duration\<close> is a signed 64-bit number of nanoseconds, a \<^typ>\<open>64 word\<close>, so that the
  multiplication by the unit wraps around as it does in Go.
\<close>

type_synonym environment = "string \<Rightarrow> string"

type_synonym Duration = "64 word"

definition Millisecond :: Duration where "Millisecond = 1000000"
definition Second :: Duration where "Second = 1000000000"
definition Minute :: Duration where "Minute = 60000000000"

record Config =
  InstancesEndpoint :: string
  CapabilitiesEndpoint :: string
  DebounceWindow :: Duration
  BatchFlushInterval :: Duration
  BatchMaxSize :: int
  ResyncInterval :: Duration
  WatchResourceTypes :: "string list"
  ExcludeResourceTypes :: "string list"
  APIBindAddress :: string
  LogLevel :: string

definition envOrDefault :: "environment \<Rightarrow> string \<Rightarrow> string \<Rightarrow> string" where
  "envOrDefault env key defaultVal = (let val = env key in if val \<noteq> [] then val else defaultVal)"

definition envIntOrDefault :: "environment \<Rightarrow> string \<Rightarrow> int \<Rightarrow> int" where
  "envIntOrDefault env key defaultVal =
     (let val = env key in
      if val \<noteq> [] then (case Atoi val of Some i \<Rightarrow> i | None \<Rightarrow> defaultVal) else defaultVal)"

definition envDurationMsOrDefault :: "environment \<Rightarrow> string \<Rightarrow> int \<Rightarrow> Duration" where
  "envDurationMsOrDefault env key defaultMs =
     (let ms = envIntOrDefault env key defaultMs in word_of_int ms * Millisecond)"

definition envDurationMinOrDefault :: "environment \<Rightarrow> string \<Rightarrow> int \<Rightarrow> Duration" where
  "envDurationMinOrDefault env key defaultMin =
     (let min = envIntOrDefault env key defaultMin in word_of_int min * Minute)"

fun csv_loop :: "(string \<Rightarrow> string) \<Rightarrow> string list \<Rightarrow> string list \<Rightarrow> string list" where
  "csv_loop ulower [] result = result"
| "csv_loop ulower (p # ps) result =
     (let trimmed = TrimSpace (ToLower ulower p) in
      if trimmed \<noteq> [] then csv_loop ulower ps (result @ [trimmed]) else csv_loop ulower ps result)"

definition envCSVOrDefault ::
    "(string \<Rightarrow> string) \<Rightarrow> environment \<Rightarrow> string \<Rightarrow> string list \<Rightarrow> string list" where
  "envCSVOrDefault ulower env key defaultVal =
     (let val = env key in
      if val = [] then defaultVal else csv_loop ulower (Split val CHR '','') [])"

definition Load :: "(string \<Rightarrow> string) \<Rightarrow> environment \<Rightarrow> Config" where
  "Load ulower env =
     \<lparr>InstancesEndpoint = envOrDefault env ''INSTANCES_ENDPOINT'' ''http://localhost:3000/api/v1/instances/sync'',
      CapabilitiesEndpoint = envOrDefault env ''CAPABILITIES_ENDPOINT'' '''',
      DebounceWindow = envDurationMsOrDefault env ''DEBOUNCE_WINDOW_MS'' 10000,
      BatchFlushInterval = envDurationMsOrDefault env ''BATCH_FLUSH_INTERVAL_MS'' 5000,
      BatchMaxSize = envIntOrDefault env ''BATCH_MAX_SIZE'' 50,
      ResyncInterval = envDurationMinOrDefault env ''RESYNC_INTERVAL_MIN'' 1440,
      WatchResourceTypes = envCSVOrDefault ulower env ''WATCH_RESOURCE_TYPES'' [],
      ExcludeResourceTypes = envCSVOrDefault ulower env ''EXCLUDE_RESOURCE_TYPES''
        [''events'', ''leases'', ''endpointslices'', ''componentstatuses'', ''customresourcedefinitions''],
      APIBindAddress = envOrDefault env ''API_BIND_ADDRESS'' '':8082'',
      LogLevel = envOrDefault env ''LOG_LEVEL'' ''info''\<rparr>"

section \<open>Lemmas\<close>

lemma csv_loop_eq:
  "csv_loop u ps acc = acc @ filter (\<lambda>t. t \<noteq> []) (map (\<lambda>p. TrimSpace (ToLower u p)) ps)"
  by (induction u ps acc rule: csv_loop.induct) (auto simp: Let_def)

lemma sint_word_of_int_range:
  assumes "min_int \<le> i" "i \<le> max_int"
  shows "sint (word_of_int i :: 64 word) = i"
proof -
  have "- (2 ^ (LENGTH(64) - 1)) \<le> i" "i < 2 ^ (LENGTH(64) - 1)"
    using assms by (simp_all add: min_int_def max_int_def)
  then show ?thesis by (simp add: sint_sbintrunc' signed_take_bit_int_eq_self)
qed

lemma duration_product:
  assumes "min_int \<le> i * k" "i * k \<le> max_int"
  shows "sint (word_of_int i * word_of_int k :: 64 word) = i * k"
proof -
  have "(word_of_int i * word_of_int k :: 64 word) = word_of_int (i * k)" by simp
  then show ?thesis using sint_word_of_int_range [OF assms] by metis
qed

lemma envIntOrDefault_Itoa:
  "env key = Itoa i \<Longrightarrow> min_int \<le> i \<Longrightarrow> i \<le> max_int \<Longrightarrow> envIntOrDefault env key d = i"
  by (simp add: envIntOrDefault_def Atoi_Itoa_range)

lemma envDuration_values:
  "min_int \<le> i * 1000000 \<Longrightarrow> i * 1000000 \<le> max_int \<Longrightarrow>
     sint (word_of_int i * Millisecond) = i * 1000000"
  "min_int \<le> i * 60000000000 \<Longrightarrow> i * 60000000000 \<le> max_int \<Longrightarrow>
     sint (word_of_int i * Minute) = i * 60000000000"
  using duration_product [of i 1000000] duration_product [of i 60000000000]
  by (simp_all add: Millisecond_def Minute_def)

section \<open>Properties\<close>

text \<open>C34. A millisecond setting written in decimal is read back as exactly that many
  milliseconds, for every value whose product with the unit fits in 64 bits, and a minute
  setting likewise.\<close>

theorem Load_durations:
  assumes "env ''DEBOUNCE_WINDOW_MS'' = Itoa dw" "\<bar>dw\<bar> \<le> 9223372036854"
    and "env ''BATCH_FLUSH_INTERVAL_MS'' = Itoa fi" "\<bar>fi\<bar> \<le> 9223372036854"
    and "env ''RESYNC_INTERVAL_MIN'' = Itoa ri" "\<bar>ri\<bar> \<le> 153722867"
  shows "sint (DebounceWindow (Load u env)) = dw * 1000000 \<and>
    sint (BatchFlushInterval (Load u env)) = fi * 1000000 \<and>
    sint (ResyncInterval (Load u env)) = ri * 60000000000"
proof -
  have "envIntOrDefault env ''DEBOUNCE_WINDOW_MS'' 10000 = dw"
    and "envIntOrDefault env ''BATCH_FLUSH_INTERVAL_MS'' 5000 = fi"
    and "envIntOrDefault env ''RESYNC_INTERVAL_MIN'' 1440 = ri"
    using assms by (simp_all add: envIntOrDefault_Itoa min_int_def max_int_def)
  then show ?thesis
    using assms(2,4,6)
    by (simp add: Load_def envDurationMsOrDefault_def envDurationMinOrDefault_def Let_def
        envDuration_values min_int_def max_int_def)
qed

theorem Load_durations_witness:
  "sint (DebounceWindow (Load id (\<lambda>k. if k = ''DEBOUNCE_WINDOW_MS'' then ''10000''
      else if k = ''BATCH_FLUSH_INTERVAL_MS'' then ''-1''
      else if k = ''RESYNC_INTERVAL_MIN'' then ''1440'' else ''''))) = 10000 * 1000000"
proof -
  have n: "Itoa 10000 = ''10000''" "Itoa (-1) = ''-1''" "Itoa 1440 = ''1440''"
    by (simp_all add: Itoa_def nat_digits.simps digit_char_def char_of_def bit_iff_odd)
  show ?thesis
    by (rule Load_durations [where fi = "-1" and ri = 1440, THEN conjunct1]) (simp_all add: n)
qed

text \<open>A number that \<open>strconv.Atoi\<close> rejects is the same as one that is not set: the
  documented default is used.\<close>

lemma Load_malformed_numbers:
  assumes "Atoi (env ''DEBOUNCE_WINDOW_MS'') = None" "Atoi (env ''BATCH_FLUSH_INTERVAL_MS'') = None"
    and "Atoi (env ''BATCH_MAX_SIZE'') = None" "Atoi (env ''RESYNC_INTERVAL_MIN'') = None"
  shows "DebounceWindow (Load u env) = 10 * Second \<and> BatchFlushInterval (Load u env) = 5 * Second \<and>
    BatchMaxSize (Load u env) = 50 \<and> ResyncInterval (Load u env) = 1440 * Minute"
  using assms
  by (simp add: Load_def envDurationMsOrDefault_def envDurationMinOrDefault_def
      envIntOrDefault_def Millisecond_def Second_def Minute_def Let_def)

end
