(* ===== verification/Go_Runtime.thy ===== *)
theory Go_Runtime
  imports Prelude
begin

text \<open>
  Channels, closing, non-blocking and blocking sends, and \<open>time.AfterFunc\<close> timers.

  A channel carries two histories beside its buffer: every value a send put in
  (\<open>ch_sent\<close>) and every value a \<open>select\<close> with a \<open>default\<close> branch gave up
  (\<open>ch_dropped\<close>). A send on a closed channel and a second \<open>close\<close> panic in Go and end the
  process: \<open>ch_panic\<close> records that it happened, and the theorems show it never does.
\<close>

section \<open>Channels\<close>

record 'a chan =
  ch_buf :: "'a list"
  ch_cap :: nat
  ch_closed :: bool
  ch_panic :: bool
  ch_sent :: "'a list"
  ch_dropped :: "'a list"

definition make_chan :: "nat \<Rightarrow> 'a chan" where
  "make_chan n =
     \<lparr>ch_buf = [], ch_cap = n, ch_closed = False, ch_panic = False, ch_sent = [], ch_dropped = []\<rparr>"

definition chan_room :: "'a chan \<Rightarrow> bool" where
  "chan_room c \<longleftrightarrow> length (ch_buf c) < ch_cap c"

definition chan_push :: "'a \<Rightarrow> 'a chan \<Rightarrow> 'a chan" where
  "chan_push v c = c\<lparr>ch_buf := ch_buf c @ [v], ch_sent := ch_sent c @ [v]\<rparr>"

text \<open>\<open>select { case ch <- v: default: }\<close>\<close>

definition chan_send_nb :: "'a \<Rightarrow> 'a chan \<Rightarrow> 'a chan" where
  "chan_send_nb v c =
     (if ch_closed c then c\<lparr>ch_panic := True\<rparr>
      else if chan_room c then chan_push v c
      else c\<lparr>ch_dropped := ch_dropped c @ [v]\<rparr>)"

text \<open>\<open>ch <- v\<close>; \<open>None\<close> is a send that blocks.\<close>

definition chan_send :: "'a \<Rightarrow> 'a chan \<Rightarrow> 'a chan option" where
  "chan_send v c =
     (if ch_closed c then Some (c\<lparr>ch_panic := True\<rparr>)
      else if chan_room c then Some (chan_push v c) else None)"

datatype 'a recv = Received 'a "'a chan" | RecvClosed | RecvBlocks

definition chan_recv :: "'a chan \<Rightarrow> 'a recv" where
  "chan_recv c =
     (case ch_buf c of
        v # vs \<Rightarrow> Received v (c\<lparr>ch_buf := vs\<rparr>)
      | [] \<Rightarrow> if ch_closed c then RecvClosed else RecvBlocks)"

definition chan_close :: "'a chan \<Rightarrow> 'a chan" where
  "chan_close c = (if ch_closed c then c\<lparr>ch_panic := True\<rparr> else c\<lparr>ch_closed := True\<rparr>)"

declare chan_push_def [chan_defs] chan_send_nb_def [chan_defs] chan_send_def [chan_defs] chan_close_def [chan_defs]

text \<open>The well-formed channels: no panic, no more values than the capacity, and the buffer
  is the end of what was sent (first in, first out).\<close>

definition chan_ok :: "'a chan \<Rightarrow> bool" where
  "chan_ok c \<longleftrightarrow>
     \<not> ch_panic c \<and> length (ch_buf c) \<le> ch_cap c \<and> suffix (ch_buf c) (ch_sent c)"

lemma make_chan_ok [simp]: "chan_ok (make_chan n)"
  by (simp add: chan_ok_def make_chan_def)

lemma make_chan_sel [simp]:
  "ch_buf (make_chan n) = []" "ch_cap (make_chan n) = n" "ch_closed (make_chan n) = False"
  "ch_sent (make_chan n) = []" "ch_dropped (make_chan n) = []" "ch_panic (make_chan n) = False"
  by (simp_all add: make_chan_def)

lemma chan_push_sel [simp]:
  "ch_buf (chan_push v c) = ch_buf c @ [v]" "ch_sent (chan_push v c) = ch_sent c @ [v]"
  "ch_cap (chan_push v c) = ch_cap c" "ch_closed (chan_push v c) = ch_closed c"
  "ch_panic (chan_push v c) = ch_panic c" "ch_dropped (chan_push v c) = ch_dropped c"
  by (simp_all add: chan_push_def)

lemma chan_push_ok: "chan_ok c \<Longrightarrow> chan_room c \<Longrightarrow> chan_ok (chan_push v c)"
  by (auto simp: chan_ok_def chan_room_def suffix_def)

lemma chan_send_nb_ok: "chan_ok c \<Longrightarrow> \<not> ch_closed c \<Longrightarrow> chan_ok (chan_send_nb v c)"
  by (simp add: chan_send_nb_def chan_push_ok) (simp add: chan_ok_def)

lemma chan_send_nb_closed [simp]: "ch_closed (chan_send_nb v c) = ch_closed c"
  by (simp add: chan_send_nb_def)

lemma chan_send_nb_cap [simp]: "ch_cap (chan_send_nb v c) = ch_cap c"
  by (simp add: chan_send_nb_def)

lemma chan_send_nb_room:
  "\<not> ch_closed c \<Longrightarrow> chan_room c \<Longrightarrow> chan_send_nb v c = chan_push v c"
  by (simp add: chan_send_nb_def)

lemma chan_close_ok: "chan_ok c \<Longrightarrow> \<not> ch_closed c \<Longrightarrow> chan_ok (chan_close c)"
  by (simp add: chan_ok_def chan_close_def)

lemma chan_recv_Received:
  "chan_recv c = Received v c' \<longleftrightarrow> (\<exists>vs. ch_buf c = v # vs \<and> c' = c\<lparr>ch_buf := vs\<rparr>)"
  by (auto simp: chan_recv_def split: list.splits if_splits)

text \<open>A channel seen through a function on its values.\<close>

definition chan_map :: "('a \<Rightarrow> 'b) \<Rightarrow> 'a chan \<Rightarrow> 'b chan" where
  "chan_map f c =
     \<lparr>ch_buf = map f (ch_buf c), ch_cap = ch_cap c, ch_closed = ch_closed c, ch_panic = ch_panic c,
      ch_sent = map f (ch_sent c), ch_dropped = map f (ch_dropped c)\<rparr>"

lemma chan_map_sel [simp]:
  "ch_buf (chan_map f c) = map f (ch_buf c)" "ch_cap (chan_map f c) = ch_cap c"
  "ch_closed (chan_map f c) = ch_closed c" "ch_panic (chan_map f c) = ch_panic c"
  "ch_sent (chan_map f c) = map f (ch_sent c)" "ch_dropped (chan_map f c) = map f (ch_dropped c)"
  by (simp_all add: chan_map_def)

lemma chan_map_make [simp]: "chan_map f (make_chan n) = make_chan n"
  by (simp add: chan_map_def make_chan_def)

lemma chan_map_send_nb [simp]: "chan_map f (chan_send_nb v c) = chan_send_nb (f v) (chan_map f c)"
  by (simp add: chan_map_def chan_defs chan_room_def)

lemma chan_map_close [simp]: "chan_map f (chan_close c) = chan_close (chan_map f c)"
  by (simp add: chan_map_def chan_defs)

section \<open>The sink interface: a guarded channel\<close>

text \<open>
  Both debounce buffers guard their \<open>Payloads\<close> channel with a mutex and a flag
  \<open>payloadsClosed\<close>. The contract of such a pair of operations, and what follows for every
  interleaving of calls to them.
\<close>

datatype 'p sink_call = Emit 'p | Close

locale payload_sink =
  fixes emit :: "'p \<Rightarrow> 's \<Rightarrow> 's"
    and close :: "'s \<Rightarrow> 's"
    and chan :: "'s \<Rightarrow> 'p chan"
    and flag :: "'s \<Rightarrow> bool"
  assumes emit_when_closed: "flag s \<Longrightarrow> emit p s = s"
    and emit_when_open: "\<not> flag s \<Longrightarrow> chan (emit p s) = chan_send_nb p (chan s)"
    and emit_flag: "flag (emit p s) = flag s"
    and close_when_closed: "flag s \<Longrightarrow> close s = s"
    and close_when_open: "\<not> flag s \<Longrightarrow> chan (close s) = chan_close (chan s)"
    and close_flag: "flag (close s)"
begin

definition sink_ok :: "'s \<Rightarrow> bool" where
  "sink_ok s \<longleftrightarrow> (flag s \<longleftrightarrow> ch_closed (chan s)) \<and> chan_ok (chan s)"

fun call :: "'p sink_call \<Rightarrow> 's \<Rightarrow> 's" where
  "call (Emit p) s = emit p s"
| "call Close s = close s"

fun calls :: "'p sink_call list \<Rightarrow> 's \<Rightarrow> 's" where
  "calls [] s = s"
| "calls (c # cs) s = calls cs (call c s)"

lemma emit_keeps_ok: "sink_ok s \<Longrightarrow> sink_ok (emit p s)"
  by (cases "flag s") (auto simp: sink_ok_def emit_when_closed emit_when_open emit_flag chan_send_nb_ok)

lemma close_keeps_ok: "sink_ok s \<Longrightarrow> sink_ok (close s)"
  by (cases "flag s")
    (auto simp: sink_ok_def close_when_closed close_when_open close_flag chan_close_ok, simp add: chan_close_def)

lemma calls_keep_ok: "sink_ok s \<Longrightarrow> sink_ok (calls cs s)"
proof (induction cs arbitrary: s)
  case (Cons c cs)
  then show ?case by (cases c) (auto simp: emit_keeps_ok close_keeps_ok)
qed simp

lemma calls_no_panic: "sink_ok s \<Longrightarrow> \<not> ch_panic (chan (calls cs s))"
  using calls_keep_ok by (auto simp: sink_ok_def chan_ok_def)

lemma closed_stays: "flag s \<Longrightarrow> calls cs s = s"
proof (induction cs arbitrary: s)
  case (Cons c cs)
  then show ?case by (cases c) (auto simp: emit_when_closed close_when_closed)
qed simp

lemma emit_view:
  "chan_map f (chan (emit p s)) =
     (if flag s then chan_map f (chan s) else chan_send_nb (f p) (chan_map f (chan s)))"
  by (simp add: emit_when_closed emit_when_open)

lemma close_view:
  "chan_map f (chan (close s)) = (if flag s then chan_map f (chan s) else chan_close (chan_map f (chan s)))"
  by (simp add: close_when_closed close_when_open)

end

section \<open>Timers\<close>

text \<open>
  \<open>time.AfterFunc(d, f)\<close> arms a timer; when it expires the runtime starts \<open>f\<close> in a
  goroutine of its own. \<open>Stop\<close> takes an armed timer back and does nothing to one that has
  expired: its goroutine has been started and is not waited for. A timer is its handle, the
  variables its function captured, and its deadline.
\<close>

record 'c timers =
  tm_now :: int
  tm_armed :: "(nat \<times> 'c \<times> int) list"
  tm_next :: nat

definition no_timers :: "'c timers" where
  "no_timers = \<lparr>tm_now = 0, tm_armed = [], tm_next = 0\<rparr>"

definition AfterFunc :: "int \<Rightarrow> 'c \<Rightarrow> 'c timers \<Rightarrow> 'c timers" where
  "AfterFunc d c t =
     t\<lparr>tm_armed := tm_armed t @ [(tm_next t, c, tm_now t + max 0 d)], tm_next := Suc (tm_next t)\<rparr>"

definition Stop_timer :: "nat \<Rightarrow> 'c timers \<Rightarrow> 'c timers" where
  "Stop_timer h t = t\<lparr>tm_armed := filter (\<lambda>(h', _). h' \<noteq> h) (tm_armed t)\<rparr>"

text \<open>The \<open>i\<close>-th armed timer expires: the captured variables of the goroutine it starts.\<close>

definition expire :: "nat \<Rightarrow> 'c timers \<Rightarrow> ('c \<times> 'c timers) option" where
  "expire i t =
     (if i < length (tm_armed t)
      then (case tm_armed t ! i of
              (h, c, w) \<Rightarrow> if w \<le> tm_now t
                           then Some (c, t\<lparr>tm_armed := take i (tm_armed t) @ drop (Suc i) (tm_armed t)\<rparr>)
                           else None)
      else None)"

definition pass_time :: "nat \<Rightarrow> 'c timers \<Rightarrow> 'c timers" where
  "pass_time dt t = t\<lparr>tm_now := tm_now t + int dt\<rparr>"

lemma timers_sel [simp]:
  "tm_now (AfterFunc d c t) = tm_now t" "tm_now (Stop_timer h t) = tm_now t"
  "tm_next (AfterFunc d c t) = Suc (tm_next t)" "tm_next (Stop_timer h t) = tm_next t"
  "tm_now (pass_time dt t) = tm_now t + int dt" "tm_armed (pass_time dt t) = tm_armed t"
  "tm_next (pass_time dt t) = tm_next t"
  "tm_now no_timers = 0" "tm_armed no_timers = []" "tm_next no_timers = 0"
  by (simp_all add: AfterFunc_def Stop_timer_def pass_time_def no_timers_def)

lemma armed_AfterFunc [simp]:
  "tm_armed (AfterFunc d c t) = tm_armed t @ [(tm_next t, c, tm_now t + max 0 d)]"
  by (simp add: AfterFunc_def)

lemma set_armed_Stop [simp]:
  "set (tm_armed (Stop_timer h t)) = {(h', c, w) \<in> set (tm_armed t). h' \<noteq> h}"
  by (auto simp: Stop_timer_def)

lemma mset_armed_Stop [simp]:
  "mset (tm_armed (Stop_timer h t)) = filter_mset (\<lambda>c. fst c \<noteq> h) (mset (tm_armed t))"
  by (simp add: Stop_timer_def case_prod_beta')

lemma expire_Some:
  assumes "expire i t = Some (c, t')"
  obtains h w xs ys where "tm_armed t = xs @ (h, c, w) # ys" "w \<le> tm_now t"
    "t' = t\<lparr>tm_armed := xs @ ys\<rparr>"
proof -
  from assms obtain h w where i: "i < length (tm_armed t)" and e: "tm_armed t ! i = (h, c, w)"
    and w: "w \<le> tm_now t"
    and t': "t' = t\<lparr>tm_armed := take i (tm_armed t) @ drop (Suc i) (tm_armed t)\<rparr>"
    by (auto simp: expire_def split: if_splits prod.splits)
  from i e have "tm_armed t = take i (tm_armed t) @ (h, c, w) # drop (Suc i) (tm_armed t)"
    by (metis id_take_nth_drop)
  with w t' show ?thesis using that by blast
qed

text \<open>As multisets.\<close>

lemma expire_mset:
  assumes "expire i t = Some (c, t')"
  obtains h w where "(h, c, w) \<in># mset (tm_armed t)" "w \<le> tm_now t"
    "mset (tm_armed t') = mset (tm_armed t) - {#(h, c, w)#}" "tm_now t' = tm_now t" "tm_next t' = tm_next t"
proof -
  from expire_Some [OF assms] obtain h w xs ys where e: "tm_armed t = xs @ (h, c, w) # ys" "w \<le> tm_now t"
    "t' = t\<lparr>tm_armed := xs @ ys\<rparr>" .
  then show ?thesis using that [of h w] by simp
qed

lemma expire_enabled:
  assumes "(h, c, w) \<in># mset (tm_armed t)" "w \<le> tm_now t"
  obtains i t' where "expire i t = Some (c, t')" "mset (tm_armed t') = mset (tm_armed t) - {#(h, c, w)#}"
    "tm_now t' = tm_now t" "tm_next t' = tm_next t"
proof -
  obtain i where i: "i < length (tm_armed t)" "tm_armed t ! i = (h, c, w)"
    using assms(1) by (auto simp: in_set_conv_nth)
  have "mset (drop_nth i (tm_armed t)) = mset (tm_armed t) - {#(h, c, w)#}" using mset_drop_nth [OF i(1)] i(2) by simp
  then show ?thesis
    using that [of i "t\<lparr>tm_armed := drop_nth i (tm_armed t)\<rparr>"] i assms(2) by (simp add: expire_def drop_nth_def)
qed

end
