(* ===== verification/Watcher.thy ===== *)
theory Watcher
  imports Metadata Resource_Filter Config Go_Runtime
begin

text \<open>
  The watcher (\<open>src/internal/controller/watcher.go\<close>): discovery of the resource types to
  watch, the three informer callbacks, the two event channels, change detection and the
  ad-hoc resync.

  What is not under \<open>src/\<close> is an argument: the discovery answer, the parser of group/version
  strings, the lists the dynamic client returns and the errors of its constructors.
  A Go \<open>select\<close> takes any of its ready cases: where the stop case and the send case can
  both be ready the runtime's pick is the argument \<open>pick\<close>. A send that blocks is \<open>None\<close>.
\<close>

section \<open>Types\<close>

datatype EventType = EventAdd | EventUpdate | EventDelete

record ResourceEvent =
  re_Type :: EventType
  re_Instance :: ResourceInstance

record CrdEvent =
  ce_Type :: EventType
  ce_CrdName :: string

record GroupVersionResource =
  gvr_Group :: string
  gvr_Version :: string
  gvr_Resource :: string

definition crdGVR :: GroupVersionResource where
  "crdGVR = \<lparr>gvr_Group = ''apiextensions.k8s.io'', gvr_Version = ''v1'',
             gvr_Resource = ''customresourcedefinitions''\<rparr>"

text \<open>\<open>informers\<close> are the resource types whose informer has the event handler.\<close>

record Watcher =
  w_filter :: ResourceFilter
  w_resyncInterval :: Duration
  watchCRDs :: bool
  Events :: "ResourceEvent chan"
  CrdEvents :: "CrdEvent chan"
  watchedGVRs :: "GroupVersionResource list"
  informers :: "GroupVersionResource list"
  stopCh :: "unit chan"
  stopOnce :: bool

text \<open>The argument of an informer callback: an unstructured object, a
  \<open>DeletedFinalStateUnknown\<close> tombstone around a value, or anything else.\<close>

datatype any_obj = Unstructured unstructured | DeletedFinalStateUnknown any_obj | OtherObj

section \<open>Construction, stop\<close>

definition NewWatcher ::
    "(string \<Rightarrow> string) \<Rightarrow> string option \<Rightarrow> string option \<Rightarrow> Config \<Rightarrow> string + Watcher" where
  "NewWatcher ulower dynErr discoErr cfg =
     (case dynErr of
        Some e \<Rightarrow> Inl (''creating dynamic client: '' @ e)
      | None \<Rightarrow>
          (case discoErr of
             Some e \<Rightarrow> Inl (''creating discovery client: '' @ e)
           | None \<Rightarrow>
               Inr \<lparr>w_filter = New_filter ulower (WatchResourceTypes cfg) (ExcludeResourceTypes cfg),
                    w_resyncInterval = ResyncInterval cfg,
                    watchCRDs = (CapabilitiesEndpoint cfg \<noteq> []),
                    Events = make_chan 10000, CrdEvents = make_chan 1000,
                    watchedGVRs = [], informers = [], stopCh = make_chan 0, stopOnce = False\<rparr>))"

definition Stop_watcher :: "Watcher \<Rightarrow> Watcher" where
  "Stop_watcher w =
     (if stopOnce w then w else w\<lparr>stopOnce := True, stopCh := chan_close (stopCh w)\<rparr>)"

section \<open>Discovery\<close>

fun resources_loop ::
    "(string \<Rightarrow> string) \<Rightarrow> ResourceFilter \<Rightarrow> string \<times> string \<Rightarrow> APIResource list \<Rightarrow>
     GroupVersionResource list \<times> bool \<Rightarrow> GroupVersionResource list \<times> bool" where
  "resources_loop ulower f gv [] st = st"
| "resources_loop ulower f gv (resource # rest) (gvrs, hasCRDs) =
     (if ContainsByte (ar_Name resource) CHR ''/'' then resources_loop ulower f gv rest (gvrs, hasCRDs)
      else if \<not> ShouldWatch ulower f resource then resources_loop ulower f gv rest (gvrs, hasCRDs)
      else let gvr = \<lparr>gvr_Group = fst gv, gvr_Version = snd gv, gvr_Resource = ar_Name resource\<rparr>
           in resources_loop ulower f gv rest (gvrs @ [gvr], if gvr = crdGVR then True else hasCRDs))"

fun lists_loop ::
    "(string \<Rightarrow> string) \<Rightarrow> (string \<Rightarrow> (string \<times> string) option) \<Rightarrow> ResourceFilter \<Rightarrow>
     (string \<times> APIResource list) list \<Rightarrow> GroupVersionResource list \<times> bool \<Rightarrow>
     GroupVersionResource list \<times> bool" where
  "lists_loop ulower parseGV f [] st = st"
| "lists_loop ulower parseGV f ((groupVersion, resources) # rest) st =
     (case parseGV groupVersion of
        None \<Rightarrow> lists_loop ulower parseGV f rest st
      | Some gv \<Rightarrow> lists_loop ulower parseGV f rest (resources_loop ulower f gv resources st))"

text \<open>The discovery client may return partial results with an error; the error is logged
  and the lists are used, so only the lists are an argument.\<close>

definition discoverResources ::
    "(string \<Rightarrow> string) \<Rightarrow> (string \<Rightarrow> (string \<times> string) option) \<Rightarrow>
     (string \<times> APIResource list) list \<Rightarrow> Watcher \<Rightarrow> GroupVersionResource list" where
  "discoverResources ulower parseGV resourceLists w =
     (let (gvrs, hasCRDs) = lists_loop ulower parseGV (w_filter w) resourceLists ([], False)
      in if watchCRDs w \<and> \<not> hasCRDs then gvrs @ [crdGVR] else gvrs)"

text \<open>The set-up part of \<open>Start\<close>: \<open>addErr\<close> says for which types \<open>AddEventHandler\<close> fails.
  The rest of \<open>Start\<close> waits for the context and calls \<open>Stop\<close> when it is cancelled.\<close>

definition Start_watcher ::
    "(string \<Rightarrow> string) \<Rightarrow> (string \<Rightarrow> (string \<times> string) option) \<Rightarrow>
     (string \<times> APIResource list) list \<Rightarrow> (GroupVersionResource \<Rightarrow> bool) \<Rightarrow> Watcher \<Rightarrow> Watcher" where
  "Start_watcher ulower parseGV resourceLists addErr w =
     (let discovered = discoverResources ulower parseGV resourceLists w
      in w\<lparr>watchedGVRs := discovered, informers := filter (\<lambda>g. \<not> addErr g) discovered\<rparr>)"

definition WatchedGVRCount :: "Watcher \<Rightarrow> nat" where
  "WatchedGVRCount w = length (watchedGVRs w)"

section \<open>Emitting events\<close>

definition emit :: "bool \<Rightarrow> ResourceEvent \<Rightarrow> Watcher \<Rightarrow> Watcher" where
  "emit pick event w =
     (if ch_closed (stopCh w) \<and> (pick \<or> \<not> chan_room (Events w)) then w
      else w\<lparr>Events := chan_send_nb event (Events w)\<rparr>)"

definition emitCrd :: "bool \<Rightarrow> CrdEvent \<Rightarrow> Watcher \<Rightarrow> Watcher option" where
  "emitCrd pick event w =
     (if ce_Type event = EventDelete then
        (if ch_closed (stopCh w) \<and> (pick \<or> \<not> chan_room (CrdEvents w)) then Some w
         else map_option (\<lambda>c. w\<lparr>CrdEvents := c\<rparr>) (chan_send event (CrdEvents w)))
      else if ch_closed (stopCh w) \<and> (pick \<or> \<not> chan_room (CrdEvents w)) then Some w
      else Some (w\<lparr>CrdEvents := chan_send_nb event (CrdEvents w)\<rparr>))"

section \<open>Change detection\<close>

definition str_get :: "(string, string) gomap \<Rightarrow> string \<Rightarrow> string" where
  "str_get m k = (case gm_get m k of None \<Rightarrow> [] | Some v \<Rightarrow> v)"

fun maps_loop :: "(string, string) gomap \<Rightarrow> (string, string) gomap \<Rightarrow> bool" where
  "maps_loop [] b = True"
| "maps_loop ((k, v) # rest) b = (if str_get b k \<noteq> v then False else maps_loop rest b)"

definition mapsEqual :: "strmap \<Rightarrow> strmap \<Rightarrow> bool" where
  "mapsEqual a b =
     (if length (map_entries a) \<noteq> length (map_entries b) then False
      else maps_loop (map_entries a) (map_entries b))"

definition metadataChanged :: "unstructured \<Rightarrow> unstructured \<Rightarrow> bool" where
  "metadataChanged oldObj newObj =
     (if GetResourceVersion oldObj = GetResourceVersion newObj then False
      else if \<not> mapsEqual (GetLabels oldObj) (GetLabels newObj) then True
      else if \<not> mapsEqual (GetAnnotations oldObj) (GetAnnotations newObj) then True
      else False)"

section \<open>The informer callbacks\<close>

definition IsCRD :: "unstructured \<Rightarrow> bool" where
  "IsCRD obj \<longleftrightarrow>
     GetKind obj = ''CustomResourceDefinition'' \<and> HasPrefix (GetAPIVersion obj) ''apiextensions.k8s.io/''"

definition AddFunc :: "bool \<Rightarrow> any_obj \<Rightarrow> Watcher \<Rightarrow> Watcher option" where
  "AddFunc pick obj w =
     (case obj of
        Unstructured u \<Rightarrow>
          if IsCRD u then emitCrd pick \<lparr>ce_Type = EventAdd, ce_CrdName = GetName u\<rparr> w
          else Some (emit pick \<lparr>re_Type = EventAdd, re_Instance = Extract u\<rparr> w)
      | _ \<Rightarrow> Some w)"

definition UpdateFunc :: "bool \<Rightarrow> any_obj \<Rightarrow> any_obj \<Rightarrow> Watcher \<Rightarrow> Watcher" where
  "UpdateFunc pick oldObj newObj w =
     (case (oldObj, newObj) of
        (Unstructured oldU, Unstructured newU) \<Rightarrow>
          if IsCRD newU then w
          else if \<not> metadataChanged oldU newU then w
          else emit pick \<lparr>re_Type = EventUpdate, re_Instance = Extract newU\<rparr> w
      | _ \<Rightarrow> w)"

definition DeleteFunc :: "bool \<Rightarrow> any_obj \<Rightarrow> Watcher \<Rightarrow> Watcher option" where
  "DeleteFunc pick obj w =
     (case (case obj of DeletedFinalStateUnknown o' \<Rightarrow> o' | _ \<Rightarrow> obj) of
        Unstructured u \<Rightarrow>
          if IsCRD u then emitCrd pick \<lparr>ce_Type = EventDelete, ce_CrdName = GetName u\<rparr> w
          else Some (emit pick \<lparr>re_Type = EventDelete, re_Instance = Extract u\<rparr> w)
      | _ \<Rightarrow> Some w)"

section \<open>Ad-hoc resync\<close>

text \<open>
  While \<open>TriggerResync\<close> runs, other goroutines use the same channels and may stop the
  watcher: \<open>others n\<close> is what they do before the \<open>n\<close>-th event is emitted, \<open>pick n\<close> the
  choice of that event's \<open>select\<close>. \<open>tot\<close> (\<open>total\<close> in the code) counts the emitted events, so it numbers them
  too. \<open>lister\<close> is the answer of the dynamic client, an error or the listed objects.
\<close>

fun resync_items ::
    "(nat \<Rightarrow> Watcher \<Rightarrow> Watcher) \<Rightarrow> (nat \<Rightarrow> bool) \<Rightarrow> unstructured list \<Rightarrow> nat \<Rightarrow> Watcher \<Rightarrow>
     (nat \<times> Watcher) option" where
  "resync_items others pick [] tot w = Some (tot, w)"
| "resync_items others pick (obj # objs) tot w =
     (if IsCRD obj then
        (case emitCrd (pick tot) \<lparr>ce_Type = EventAdd, ce_CrdName = GetName obj\<rparr> (others tot w) of
           None \<Rightarrow> None
         | Some w' \<Rightarrow> resync_items others pick objs (Suc tot) w')
      else resync_items others pick objs (Suc tot)
             (emit (pick tot) \<lparr>re_Type = EventAdd, re_Instance = Extract obj\<rparr> (others tot w)))"

fun resync_gvrs ::
    "(GroupVersionResource \<Rightarrow> string + unstructured list) \<Rightarrow> (nat \<Rightarrow> Watcher \<Rightarrow> Watcher) \<Rightarrow>
     (nat \<Rightarrow> bool) \<Rightarrow> GroupVersionResource list \<Rightarrow> nat \<Rightarrow> Watcher \<Rightarrow> (nat \<times> Watcher) option" where
  "resync_gvrs lister others pick [] tot w = Some (tot, w)"
| "resync_gvrs lister others pick (gvr # gvrs) tot w =
     (case lister gvr of
        Inl e \<Rightarrow> resync_gvrs lister others pick gvrs tot w
      | Inr items \<Rightarrow>
          (case resync_items others pick items tot w of
             None \<Rightarrow> None
           | Some (tot', w') \<Rightarrow> resync_gvrs lister others pick gvrs tot' w'))"

definition TriggerResync ::
    "(GroupVersionResource \<Rightarrow> string + unstructured list) \<Rightarrow> (nat \<Rightarrow> Watcher \<Rightarrow> Watcher) \<Rightarrow>
     (nat \<Rightarrow> bool) \<Rightarrow> Watcher \<Rightarrow> ((nat \<times> string option) \<times> Watcher) option" where
  "TriggerResync lister others pick w =
     (case resync_gvrs lister others pick (watchedGVRs w) 0 w of
        None \<Rightarrow> None
      | Some (tot, w') \<Rightarrow> Some ((tot, None), w'))"

section \<open>Lemmas: channels\<close>

lemma emit_other [simp]:
  "CrdEvents (emit p e w) = CrdEvents w" "stopCh (emit p e w) = stopCh w"
  "watchedGVRs (emit p e w) = watchedGVRs w" "stopOnce (emit p e w) = stopOnce w"
  by (simp_all add: emit_def)

lemma emit_running_room:
  "\<not> ch_closed (stopCh w) \<Longrightarrow> \<not> ch_closed (Events w) \<Longrightarrow> chan_room (Events w) \<Longrightarrow>
   Events (emit p e w) = chan_push e (Events w)"
  by (simp add: emit_def chan_send_nb_room)

lemma emitCrd_other:
  "emitCrd p e w = Some w' \<Longrightarrow>
   Events w' = Events w \<and> stopCh w' = stopCh w \<and> watchedGVRs w' = watchedGVRs w"
  by (auto simp: emitCrd_def split: if_splits)

lemma emitCrd_add_total: "ce_Type e \<noteq> EventDelete \<Longrightarrow> \<exists>w'. emitCrd p e w = Some w'"
  by (simp add: emitCrd_def)

lemma emitCrd_running_room:
  "\<not> ch_closed (stopCh w) \<Longrightarrow> \<not> ch_closed (CrdEvents w) \<Longrightarrow> chan_room (CrdEvents w) \<Longrightarrow>
   emitCrd p e w = Some (w\<lparr>CrdEvents := chan_push e (CrdEvents w)\<rparr>)"
  by (simp add: emitCrd_def chan_send_nb_room chan_send_def)

section \<open>Lemmas: change detection\<close>

lemma maps_loop_iff: "maps_loop a b \<longleftrightarrow> (\<forall>(k, v) \<in> set a. str_get b k = v)"
  by (induction a b rule: maps_loop.induct) auto

text \<open>Two maps of the same size where the first is contained in the second are equal.\<close>

lemma gm_same_size_eq:
  assumes "gm_wf a" "gm_wf b" "length a = length b"
    and "\<And>k v. gm_get a k = Some v \<Longrightarrow> gm_get b k = Some v"
  shows "gm_get a = gm_get b"
proof -
  have "dom (gm_get a) \<subseteq> dom (gm_get b)" using assms(4) by (auto simp: dom_def)
  moreover have "finite (dom (gm_get b))" by (metis List.finite_set set_gm_keys)
  moreover have "card (dom (gm_get a)) = card (dom (gm_get b))"
    using assms(1-3) by (simp add: card_dom_gm_get)
  ultimately have dom: "dom (gm_get a) = dom (gm_get b)" by (metis card_subset_eq)
  show ?thesis
  proof
    fix k
    show "gm_get a k = gm_get b k"
    proof (cases "gm_get a k")
      case None
      then have "k \<notin> dom (gm_get b)" using dom by auto
      with None show ?thesis by (simp add: domIff)
    qed (simp add: assms(4))
  qed
qed

lemma mapsEqual_of_eq:
  assumes "strmap_wf a" "strmap_wf b" "gm_get (map_entries a) = gm_get (map_entries b)"
  shows "mapsEqual a b"
proof -
  have wf: "gm_wf (map_entries a)" "gm_wf (map_entries b)" using assms by (simp_all add: strmap_wf_def)
  have "length (map_entries a) = length (map_entries b)"
    using card_dom_gm_get [OF wf(1)] card_dom_gm_get [OF wf(2)] assms(3) by metis
  moreover have "str_get (map_entries b) k = v" if "(k, v) \<in> set (map_entries a)" for k v
  proof -
    have "gm_get (map_entries b) k = Some v"
      using that gm_get_Some_iff [OF wf(1)] assms(3) by metis
    then show ?thesis by (simp add: str_get_def)
  qed
  ultimately show ?thesis by (auto simp: mapsEqual_def maps_loop_iff)
qed

lemma mapsEqual_imp_eq:
  assumes "strmap_wf a" "strmap_wf b" "mapsEqual a b"
    and "\<And>k. gm_get (map_entries a) k \<noteq> Some []"
  shows "gm_get (map_entries a) = gm_get (map_entries b)"
proof (rule gm_same_size_eq)
  show wf: "gm_wf (map_entries a)" "gm_wf (map_entries b)" using assms by (simp_all add: strmap_wf_def)
  show "length (map_entries a) = length (map_entries b)"
    using assms(3) by (simp add: mapsEqual_def split: if_splits)
  show "gm_get (map_entries b) k = Some v" if g: "gm_get (map_entries a) k = Some v" for k v
  proof -
    have "(k, v) \<in> set (map_entries a)" using g by (rule gm_get_in_set)
    then have "str_get (map_entries b) k = v"
      using assms(3) by (auto simp: mapsEqual_def maps_loop_iff split: if_splits)
    moreover have "v \<noteq> []" using assms(4) g by metis
    ultimately show ?thesis by (auto simp: str_get_def split: option.splits)
  qed
qed

section \<open>Lemmas: discovery\<close>

definition listed_gvrs ::
    "(string \<Rightarrow> string) \<Rightarrow> (string \<Rightarrow> (string \<times> string) option) \<Rightarrow> ResourceFilter \<Rightarrow>
     (string \<times> APIResource list) list \<Rightarrow> GroupVersionResource list" where
  "listed_gvrs u parseGV f ls =
     concat (map (\<lambda>(s, rs). case parseGV s of
         None \<Rightarrow> []
       | Some gv \<Rightarrow> map (\<lambda>r. \<lparr>gvr_Group = fst gv, gvr_Version = snd gv, gvr_Resource = ar_Name r\<rparr>)
           (filter (\<lambda>r. CHR ''/'' \<notin> set (ar_Name r) \<and> ShouldWatch u f r) rs)) ls)"

lemma resources_loop_eq:
  "resources_loop u f gv rs (gvrs, h) =
     (let new = map (\<lambda>r. \<lparr>gvr_Group = fst gv, gvr_Version = snd gv, gvr_Resource = ar_Name r\<rparr>)
           (filter (\<lambda>r. CHR ''/'' \<notin> set (ar_Name r) \<and> ShouldWatch u f r) rs)
      in (gvrs @ new, h \<or> crdGVR \<in> set new))"
  by (induction rs arbitrary: gvrs h) (auto simp: Let_def ContainsByte_def)

lemma lists_loop_eq:
  "lists_loop u parseGV f ls (gvrs, h) =
     (gvrs @ listed_gvrs u parseGV f ls, h \<or> crdGVR \<in> set (listed_gvrs u parseGV f ls))"
proof (induction ls arbitrary: gvrs h)
  case Nil
  show ?case by (simp add: listed_gvrs_def)
next
  case (Cons l ls)
  obtain s rs where l: "l = (s, rs)" by (cases l)
  show ?case
    by (cases "parseGV s") (auto simp: l Cons.IH resources_loop_eq Let_def listed_gvrs_def)
qed

end
