(* ===== verification/Debounce.thy ===== *)
theory Debounce
  imports Watcher
begin

text \<open>
  The instance debounce buffer (\<open>src/internal/controller/debounce.go\<close>).

  The first part translates its operations one by one, each as the uninterrupted run of the
  method. Code that holds \<open>pendingMu\<close> or \<open>payloadsMu\<close> is atomic for the other goroutines, so
  every critical section is a definition of its own and the methods are composed of them.
  The second part is the concurrent system: the goroutine of \<open>Run\<close>, the timer goroutines
  \<open>time.AfterFunc\<close> starts, the clock and the consumer of \<open>Payloads\<close>, interleaved between
  critical sections in every way a scheduler may choose.

  The closure a timer runs captured the resource ID and the generation, so a timer carries
  that pair. A range over the pending map takes the order of the visit as an argument.
\<close>

section \<open>Types\<close>

record SyncPayload =
  Upserts :: "ResourceInstance list"
  Deletes :: "string list"

definition IsEmpty :: "SyncPayload \<Rightarrow> bool" where
  "IsEmpty p \<longleftrightarrow> length (Upserts p) = 0 \<and> length (Deletes p) = 0"

record pendingChange =
  pc_instance :: ResourceInstance
  pc_timer :: nat
  pc_ready :: bool
  pc_gen :: "64 word"

record DebounceBuffer =
  debounceWindow :: Duration
  flushInterval :: Duration
  maxBatchSize :: int
  pending :: "(string, pendingChange) gomap"
  Payloads :: "SyncPayload chan"
  payloadsClosed :: bool
  timers :: "(string \<times> 64 word) timers"

definition NewDebounceBuffer :: "Config \<Rightarrow> DebounceBuffer" where
  "NewDebounceBuffer cfg =
     \<lparr>debounceWindow = DebounceWindow cfg, flushInterval = BatchFlushInterval cfg,
      maxBatchSize = BatchMaxSize cfg, pending = [], Payloads = make_chan 100,
      payloadsClosed = False, timers = no_timers\<rparr>"

section \<open>The payload channel\<close>

definition emitPayload :: "SyncPayload \<Rightarrow> DebounceBuffer \<Rightarrow> DebounceBuffer" where
  "emitPayload payload d =
     (if payloadsClosed d then d else d\<lparr>Payloads := chan_send_nb payload (Payloads d)\<rparr>)"

definition closePayloads :: "DebounceBuffer \<Rightarrow> DebounceBuffer" where
  "closePayloads d =
     (if \<not> payloadsClosed d then d\<lparr>payloadsClosed := True, Payloads := chan_close (Payloads d)\<rparr> else d)"

section \<open>Critical sections on the pending map\<close>

text \<open>The delete branch of \<open>handleEvent\<close> under \<open>pendingMu\<close>.\<close>

definition cancelPending :: "string \<Rightarrow> DebounceBuffer \<Rightarrow> DebounceBuffer" where
  "cancelPending rid d =
     (case gm_get (pending d) rid of
        Some existing \<Rightarrow> d\<lparr>timers := Stop_timer (pc_timer existing) (timers d), pending := gm_del rid (pending d)\<rparr>
      | None \<Rightarrow> d)"

text \<open>The add or update branch of \<open>handleEvent\<close> under \<open>pendingMu\<close>: the generation of a new
  entry is one more than that of the entry it replaces, and 0 when it replaces none.\<close>

definition debounceUpsert :: "ResourceInstance \<Rightarrow> DebounceBuffer \<Rightarrow> DebounceBuffer" where
  "debounceUpsert inst d =
     (let (t, nextGen) =
            (case gm_get (pending d) (ri_ID inst) of
               Some existing \<Rightarrow> (Stop_timer (pc_timer existing) (timers d), pc_gen existing + 1)
             | None \<Rightarrow> (timers d, 0));
          change = \<lparr>pc_instance = inst, pc_timer = tm_next t, pc_ready = False, pc_gen = nextGen\<rparr>
      in d\<lparr>pending := gm_put (ri_ID inst) change (pending d),
           timers := AfterFunc (sint (debounceWindow d)) (ri_ID inst, nextGen) t\<rparr>)"

text \<open>The timer function under \<open>pendingMu\<close>.\<close>

definition markReady :: "string \<times> 64 word \<Rightarrow> DebounceBuffer \<Rightarrow> DebounceBuffer" where
  "markReady captured d =
     (case captured of (rid, capturedGen) \<Rightarrow>
        (case gm_get (pending d) rid of
           Some p \<Rightarrow> if pc_gen p = capturedGen
                      then d\<lparr>pending := gm_put rid (p\<lparr>pc_ready := True\<rparr>) (pending d)\<rparr> else d
         | None \<Rightarrow> d))"

fun ready_loop :: "(string, pendingChange) gomap \<Rightarrow> nat \<Rightarrow> nat" where
  "ready_loop [] cnt = cnt"
| "ready_loop ((_, change) # rest) cnt = ready_loop rest (if pc_ready change then cnt + 1 else cnt)"

definition readyCount :: "DebounceBuffer \<Rightarrow> nat" where
  "readyCount d = ready_loop (pending d) 0"

fun collect_loop ::
    "string list \<Rightarrow> (string, pendingChange) gomap \<Rightarrow> ResourceInstance list \<Rightarrow>
     ResourceInstance list \<times> (string, pendingChange) gomap" where
  "collect_loop [] pend upserts = (upserts, pend)"
| "collect_loop (rid # rids) pend upserts =
     (case gm_get pend rid of
        Some change \<Rightarrow>
          if pc_ready change then collect_loop rids (gm_del rid pend) (upserts @ [pc_instance change])
          else collect_loop rids pend upserts
      | None \<Rightarrow> collect_loop rids pend upserts)"

definition collectReady :: "string list \<Rightarrow> DebounceBuffer \<Rightarrow> ResourceInstance list \<times> DebounceBuffer" where
  "collectReady ord d =
     (if length (pending d) = 0 then ([], d)
      else let (upserts, pend) = collect_loop ord (pending d) [] in (upserts, d\<lparr>pending := pend\<rparr>))"

fun collect_all_loop ::
    "string list \<Rightarrow> (string, pendingChange) gomap \<Rightarrow> (string \<times> 64 word) timers \<Rightarrow> ResourceInstance list \<Rightarrow>
     ResourceInstance list \<times> (string, pendingChange) gomap \<times> (string \<times> 64 word) timers" where
  "collect_all_loop [] pend t upserts = (upserts, pend, t)"
| "collect_all_loop (rid # rids) pend t upserts =
     (case gm_get pend rid of
        Some change \<Rightarrow>
          collect_all_loop rids (gm_del rid pend) (Stop_timer (pc_timer change) t) (upserts @ [pc_instance change])
      | None \<Rightarrow> collect_all_loop rids pend t upserts)"

definition collectAll :: "string list \<Rightarrow> DebounceBuffer \<Rightarrow> ResourceInstance list \<times> DebounceBuffer" where
  "collectAll ord d =
     (if length (pending d) = 0 then ([], d)
      else let (upserts, pend, t) = collect_all_loop ord (pending d) (timers d) []
           in (upserts, d\<lparr>pending := pend, timers := t\<rparr>))"

definition pendingCount :: "DebounceBuffer \<Rightarrow> nat" where
  "pendingCount d = length (pending d)"

section \<open>The methods\<close>

definition handleEvent :: "ResourceEvent \<Rightarrow> DebounceBuffer \<Rightarrow> DebounceBuffer" where
  "handleEvent event d =
     (if re_Type event = EventDelete
      then emitPayload \<lparr>Upserts = [], Deletes = [ri_ID (re_Instance event)]\<rparr>
             (cancelPending (ri_ID (re_Instance event)) d)
      else debounceUpsert (re_Instance event) d)"

definition flushPending :: "string list \<Rightarrow> DebounceBuffer \<Rightarrow> DebounceBuffer" where
  "flushPending ord d =
     (let (upserts, d') = collectReady ord d
      in if length upserts = 0 then d' else emitPayload \<lparr>Upserts = upserts, Deletes = []\<rparr> d')"

definition checkFlush :: "string list \<Rightarrow> DebounceBuffer \<Rightarrow> DebounceBuffer" where
  "checkFlush ord d =
     (let size = readyCount d in if maxBatchSize d \<le> int size then flushPending ord d else d)"

definition timerFunc :: "string list \<Rightarrow> string \<times> 64 word \<Rightarrow> DebounceBuffer \<Rightarrow> DebounceBuffer" where
  "timerFunc ord captured d = checkFlush ord (markReady captured d)"

definition flushAllPending :: "string list \<Rightarrow> DebounceBuffer \<Rightarrow> DebounceBuffer" where
  "flushAllPending ord d =
     (let (upserts, d') = collectAll ord d
      in if 0 < length upserts then emitPayload \<lparr>Upserts = upserts, Deletes = []\<rparr> d' else d')"

text \<open>\<open>time.NewTicker\<close>, the first statement of \<open>Run\<close>, panics on an interval that is not
  positive.\<close>

definition Run_ticker :: "DebounceBuffer \<Rightarrow> string + unit" where
  "Run_ticker d =
     (if sint (flushInterval d) \<le> 0 then Inl ''non-positive interval for NewTicker'' else Inr ())"

section \<open>The concurrent system\<close>

text \<open>Where the goroutine of \<open>Run\<close> stands, and where a timer goroutine stands.\<close>

datatype run_pc =
    RSelect
  | REmitDelete string
  | REmitBatch "ResourceInstance list"
  | RFlushAll
  | REmitFinal "ResourceInstance list"
  | RClose
  | RDone

datatype timer_pc =
    TFired "string \<times> 64 word"
  | TMarked
  | TFlush
  | TEmit "ResourceInstance list"

text \<open>The history \<open>ds_events\<close> lists the events \<open>Run\<close> has received, with the time of
  each; no operation reads it.\<close>

record dsys =
  ds_buf :: DebounceBuffer
  ds_run :: run_pc
  ds_timers :: "timer_pc list"
  ds_events :: "(int \<times> ResourceEvent) list"

definition dsys_init :: "DebounceBuffer \<Rightarrow> dsys" where
  "dsys_init d = \<lparr>ds_buf = d, ds_run = RSelect, ds_timers = [], ds_events = []\<rparr>"

datatype dlabel =
    LEvent ResourceEvent     \<comment> \<open>\<open>Run\<close> receives an event and runs its critical section\<close>
  | LTick "string list"      \<comment> \<open>\<open>Run\<close> receives the flush tick and collects\<close>
  | LDone                    \<comment> \<open>\<open>Run\<close> sees the cancelled context or the closed event channel\<close>
  | LRun "string list"       \<comment> \<open>\<open>Run\<close> goes on with its next critical section\<close>
  | LExpire nat              \<comment> \<open>an armed timer expires and starts its goroutine\<close>
  | LTimer nat "string list" \<comment> \<open>a timer goroutine goes on with its next critical section\<close>
  | LTime nat                \<comment> \<open>time passes\<close>
  | LRecv                    \<comment> \<open>the sender receives a payload\<close>

fun run_step :: "string list \<Rightarrow> dsys \<Rightarrow> dsys option" where
  "run_step ord s =
     (case ds_run s of
        RSelect \<Rightarrow> None
      | REmitDelete rid \<Rightarrow>
          Some (s\<lparr>ds_buf := emitPayload \<lparr>Upserts = [], Deletes = [rid]\<rparr> (ds_buf s), ds_run := RSelect\<rparr>)
      | REmitBatch ups \<Rightarrow>
          Some (s\<lparr>ds_buf := emitPayload \<lparr>Upserts = ups, Deletes = []\<rparr> (ds_buf s), ds_run := RSelect\<rparr>)
      | RFlushAll \<Rightarrow>
          if range_order ord (pending (ds_buf s))
          then (case collectAll ord (ds_buf s) of
                  (ups, d) \<Rightarrow> Some (s\<lparr>ds_buf := d, ds_run := (if ups = [] then RClose else REmitFinal ups)\<rparr>))
          else None
      | REmitFinal ups \<Rightarrow>
          Some (s\<lparr>ds_buf := emitPayload \<lparr>Upserts = ups, Deletes = []\<rparr> (ds_buf s), ds_run := RClose\<rparr>)
      | RClose \<Rightarrow> Some (s\<lparr>ds_buf := closePayloads (ds_buf s), ds_run := RDone\<rparr>)
      | RDone \<Rightarrow> None)"

fun timer_step :: "nat \<Rightarrow> string list \<Rightarrow> dsys \<Rightarrow> dsys option" where
  "timer_step i ord s =
     (if i < length (ds_timers s)
      then (case ds_timers s ! i of
              TFired captured \<Rightarrow>
                Some (s\<lparr>ds_buf := markReady captured (ds_buf s), ds_timers := (ds_timers s)[i := TMarked]\<rparr>)
            | TMarked \<Rightarrow>
                if maxBatchSize (ds_buf s) \<le> int (readyCount (ds_buf s))
                then Some (s\<lparr>ds_timers := (ds_timers s)[i := TFlush]\<rparr>)
                else Some (s\<lparr>ds_timers := drop_nth i (ds_timers s)\<rparr>)
            | TFlush \<Rightarrow>
                if range_order ord (pending (ds_buf s))
                then (case collectReady ord (ds_buf s) of
                        (ups, d) \<Rightarrow>
                          Some (s\<lparr>ds_buf := d,
                                  ds_timers := (if ups = [] then drop_nth i (ds_timers s)
                                                else (ds_timers s)[i := TEmit ups])\<rparr>))
                else None
            | TEmit ups \<Rightarrow>
                Some (s\<lparr>ds_buf := emitPayload \<lparr>Upserts = ups, Deletes = []\<rparr> (ds_buf s),
                        ds_timers := drop_nth i (ds_timers s)\<rparr>))
      else None)"

fun dstep :: "dlabel \<Rightarrow> dsys \<Rightarrow> dsys option" where
  "dstep (LEvent event) s =
     (if ds_run s = RSelect
      then let s' = s\<lparr>ds_events := ds_events s @ [(tm_now (timers (ds_buf s)), event)]\<rparr>
           in if re_Type event = EventDelete
              then Some (s'\<lparr>ds_buf := cancelPending (ri_ID (re_Instance event)) (ds_buf s),
                            ds_run := REmitDelete (ri_ID (re_Instance event))\<rparr>)
              else Some (s'\<lparr>ds_buf := debounceUpsert (re_Instance event) (ds_buf s)\<rparr>)
      else None)"
| "dstep (LTick ord) s =
     (if ds_run s = RSelect \<and> range_order ord (pending (ds_buf s))
      then (case collectReady ord (ds_buf s) of
              (ups, d) \<Rightarrow> Some (s\<lparr>ds_buf := d, ds_run := (if ups = [] then RSelect else REmitBatch ups)\<rparr>))
      else None)"
| "dstep LDone s = (if ds_run s = RSelect then Some (s\<lparr>ds_run := RFlushAll\<rparr>) else None)"
| "dstep (LRun ord) s = run_step ord s"
| "dstep (LExpire i) s =
     (case expire i (timers (ds_buf s)) of
        Some (captured, t) \<Rightarrow>
          Some (s\<lparr>ds_buf := (ds_buf s)\<lparr>timers := t\<rparr>, ds_timers := ds_timers s @ [TFired captured]\<rparr>)
      | None \<Rightarrow> None)"
| "dstep (LTimer i ord) s = timer_step i ord s"
| "dstep (LTime dt) s = Some (s\<lparr>ds_buf := (ds_buf s)\<lparr>timers := pass_time dt (timers (ds_buf s))\<rparr>\<rparr>)"
| "dstep LRecv s =
     (case chan_recv (Payloads (ds_buf s)) of
        Received p c \<Rightarrow> Some (s\<lparr>ds_buf := (ds_buf s)\<lparr>Payloads := c\<rparr>\<rparr>)
      | _ \<Rightarrow> None)"

declare run_step.simps [simp del] timer_step.simps [simp del]

end
