(* ===== verification/Crd_Debounce.thy ===== *)
theory Crd_Debounce
  imports Watcher
begin

text \<open>
  The CRD debounce buffer (\<open>src/internal/controller/crd_debounce.go\<close>), in the same two parts
  as the instance buffer: the methods and their critical sections, then the concurrent system
  of \<open>Run\<close>, the timer goroutines, the clock and the sender. An event carries only the name of a
  definition, and the generation counter belongs to the buffer, not to the entry.
\<close>

section \<open>Types\<close>

record CrdSyncPayload =
  crd_Upserts :: "string list"
  crd_Deletes :: "string list"

definition IsEmpty_crd :: "CrdSyncPayload \<Rightarrow> bool" where
  "IsEmpty_crd p \<longleftrightarrow> length (crd_Upserts p) = 0 \<and> length (crd_Deletes p) = 0"

record pendingCrdChange =
  pcc_crdName :: string
  pcc_timer :: nat
  pcc_ready :: bool
  pcc_gen :: "64 word"

record CrdDebounceBuffer =
  debounceWindow_crd :: Duration
  flushInterval_crd :: Duration
  maxBatchSize_crd :: int
  pending_crd :: "(string, pendingCrdChange) gomap"
  nextGen :: "64 word"
  crd_Payloads :: "CrdSyncPayload chan"
  payloadsClosed_crd :: bool
  timers_crd :: "(string \<times> 64 word) timers"

definition NewCrdDebounceBuffer :: "Config \<Rightarrow> CrdDebounceBuffer" where
  "NewCrdDebounceBuffer cfg =
     \<lparr>debounceWindow_crd = DebounceWindow cfg, flushInterval_crd = BatchFlushInterval cfg,
      maxBatchSize_crd = BatchMaxSize cfg, pending_crd = [], nextGen = 0, crd_Payloads = make_chan 100,
      payloadsClosed_crd = False, timers_crd = no_timers\<rparr>"

section \<open>The payload channel\<close>

definition emitPayload_crd :: "CrdSyncPayload \<Rightarrow> CrdDebounceBuffer \<Rightarrow> CrdDebounceBuffer" where
  "emitPayload_crd payload d =
     (if payloadsClosed_crd d then d else d\<lparr>crd_Payloads := chan_send_nb payload (crd_Payloads d)\<rparr>)"

definition closePayloads_crd :: "CrdDebounceBuffer \<Rightarrow> CrdDebounceBuffer" where
  "closePayloads_crd d =
     (if \<not> payloadsClosed_crd d then d\<lparr>payloadsClosed_crd := True, crd_Payloads := chan_close (crd_Payloads d)\<rparr> else d)"

section \<open>Critical sections on the pending map\<close>

text \<open>The delete branch of \<open>handleEvent\<close> under \<open>pendingMu\<close>.\<close>

definition cancelPending_crd :: "string \<Rightarrow> CrdDebounceBuffer \<Rightarrow> CrdDebounceBuffer" where
  "cancelPending_crd rid d =
     (case gm_get (pending_crd d) rid of
        Some existing \<Rightarrow> d\<lparr>timers_crd := Stop_timer (pcc_timer existing) (timers_crd d), pending_crd := gm_del rid (pending_crd d)\<rparr>
      | None \<Rightarrow> d)"

text \<open>The add branch of \<open>handleEvent\<close> under \<open>pendingMu\<close>: the counter of the buffer is
  incremented before its value is captured.\<close>

definition debounceAdd :: "string \<Rightarrow> CrdDebounceBuffer \<Rightarrow> CrdDebounceBuffer" where
  "debounceAdd crdName d =
     (let t = (case gm_get (pending_crd d) crdName of
                 Some existing \<Rightarrow> Stop_timer (pcc_timer existing) (timers_crd d)
               | None \<Rightarrow> timers_crd d);
          capturedGen = nextGen d + 1;
          change = \<lparr>pcc_crdName = crdName, pcc_timer = tm_next t, pcc_ready = False, pcc_gen = capturedGen\<rparr>
      in d\<lparr>nextGen := capturedGen,
           pending_crd := gm_put crdName change (pending_crd d),
           timers_crd := AfterFunc (sint (debounceWindow_crd d)) (crdName, capturedGen) t\<rparr>)"

text \<open>The timer function under \<open>pendingMu\<close>.\<close>

definition markReady_crd :: "string \<times> 64 word \<Rightarrow> CrdDebounceBuffer \<Rightarrow> CrdDebounceBuffer" where
  "markReady_crd captured d =
     (case captured of (rid, capturedGen) \<Rightarrow>
        (case gm_get (pending_crd d) rid of
           Some p \<Rightarrow> if pcc_gen p = capturedGen
                      then d\<lparr>pending_crd := gm_put rid (p\<lparr>pcc_ready := True\<rparr>) (pending_crd d)\<rparr> else d
         | None \<Rightarrow> d))"

fun ready_loop_crd :: "(string, pendingCrdChange) gomap \<Rightarrow> nat \<Rightarrow> nat" where
  "ready_loop_crd [] cnt = cnt"
| "ready_loop_crd ((_, change) # rest) cnt = ready_loop_crd rest (if pcc_ready change then cnt + 1 else cnt)"

definition readyCount_crd :: "CrdDebounceBuffer \<Rightarrow> nat" where
  "readyCount_crd d = ready_loop_crd (pending_crd d) 0"

fun collect_loop_crd ::
    "string list \<Rightarrow> (string, pendingCrdChange) gomap \<Rightarrow> string list \<Rightarrow>
     string list \<times> (string, pendingCrdChange) gomap" where
  "collect_loop_crd [] pend upserts = (upserts, pend)"
| "collect_loop_crd (rid # rids) pend upserts =
     (case gm_get pend rid of
        Some change \<Rightarrow>
          if pcc_ready change then collect_loop_crd rids (gm_del rid pend) (upserts @ [pcc_crdName change])
          else collect_loop_crd rids pend upserts
      | None \<Rightarrow> collect_loop_crd rids pend upserts)"

definition collectReady_crd :: "string list \<Rightarrow> CrdDebounceBuffer \<Rightarrow> string list \<times> CrdDebounceBuffer" where
  "collectReady_crd ord d =
     (if length (pending_crd d) = 0 then ([], d)
      else let (upserts, pend) = collect_loop_crd ord (pending_crd d) [] in (upserts, d\<lparr>pending_crd := pend\<rparr>))"

fun collect_all_loop_crd ::
    "string list \<Rightarrow> (string, pendingCrdChange) gomap \<Rightarrow> (string \<times> 64 word) timers \<Rightarrow> string list \<Rightarrow>
     string list \<times> (string, pendingCrdChange) gomap \<times> (string \<times> 64 word) timers" where
  "collect_all_loop_crd [] pend t upserts = (upserts, pend, t)"
| "collect_all_loop_crd (rid # rids) pend t upserts =
     (case gm_get pend rid of
        Some change \<Rightarrow>
          collect_all_loop_crd rids (gm_del rid pend) (Stop_timer (pcc_timer change) t) (upserts @ [pcc_crdName change])
      | None \<Rightarrow> collect_all_loop_crd rids pend t upserts)"

definition collectAll_crd :: "string list \<Rightarrow> CrdDebounceBuffer \<Rightarrow> string list \<times> CrdDebounceBuffer" where
  "collectAll_crd ord d =
     (if length (pending_crd d) = 0 then ([], d)
      else let (upserts, pend, t) = collect_all_loop_crd ord (pending_crd d) (timers_crd d) []
           in (upserts, d\<lparr>pending_crd := pend, timers_crd := t\<rparr>))"

definition PendingCountForTesting_crd :: "CrdDebounceBuffer \<Rightarrow> nat" where
  "PendingCountForTesting_crd d = length (pending_crd d)"

section \<open>The methods\<close>

definition handleEvent_crd :: "CrdEvent \<Rightarrow> CrdDebounceBuffer \<Rightarrow> CrdDebounceBuffer" where
  "handleEvent_crd event d =
     (if ce_Type event = EventDelete
      then emitPayload_crd \<lparr>crd_Upserts = [], crd_Deletes = [ce_CrdName event]\<rparr>
             (cancelPending_crd (ce_CrdName event) d)
      else debounceAdd (ce_CrdName event) d)"

definition flushPending_crd :: "string list \<Rightarrow> CrdDebounceBuffer \<Rightarrow> CrdDebounceBuffer" where
  "flushPending_crd ord d =
     (let (upserts, d') = collectReady_crd ord d
      in if length upserts = 0 then d' else emitPayload_crd \<lparr>crd_Upserts = upserts, crd_Deletes = []\<rparr> d')"

definition checkFlush_crd :: "string list \<Rightarrow> CrdDebounceBuffer \<Rightarrow> CrdDebounceBuffer" where
  "checkFlush_crd ord d =
     (let size = readyCount_crd d in if maxBatchSize_crd d \<le> int size then flushPending_crd ord d else d)"

definition timerFunc_crd :: "string list \<Rightarrow> string \<times> 64 word \<Rightarrow> CrdDebounceBuffer \<Rightarrow> CrdDebounceBuffer" where
  "timerFunc_crd ord captured d = checkFlush_crd ord (markReady_crd captured d)"

definition flushAllPending_crd :: "string list \<Rightarrow> CrdDebounceBuffer \<Rightarrow> CrdDebounceBuffer" where
  "flushAllPending_crd ord d =
     (let (upserts, d') = collectAll_crd ord d
      in if 0 < length upserts then emitPayload_crd \<lparr>crd_Upserts = upserts, crd_Deletes = []\<rparr> d' else d')"

text \<open>\<open>time.NewTicker\<close>, the first statement of \<open>Run\<close>, panics on an interval that is not
  positive.\<close>

definition Run_ticker_crd :: "CrdDebounceBuffer \<Rightarrow> string + unit" where
  "Run_ticker_crd d =
     (if sint (flushInterval_crd d) \<le> 0 then Inl ''non-positive interval for NewTicker'' else Inr ())"

section \<open>The concurrent system\<close>

text \<open>Where the goroutine of \<open>Run\<close> stands, and where a timer goroutine stands.\<close>

datatype crun_pc =
    CRSelect
  | CREmitDelete string
  | CREmitBatch "string list"
  | CRFlushAll
  | CREmitFinal "string list"
  | CRClose
  | CRDone

datatype ctimer_pc =
    CTFired "string \<times> 64 word"
  | CTMarked
  | CTFlush
  | CTEmit "string list"

text \<open>The history \<open>cs_events\<close> lists the events \<open>Run\<close> has received, with the time of
  each; no operation reads it.\<close>

record csys =
  cs_buf :: CrdDebounceBuffer
  cs_run :: crun_pc
  cs_timers :: "ctimer_pc list"
  cs_events :: "(int \<times> CrdEvent) list"

definition csys_init :: "CrdDebounceBuffer \<Rightarrow> csys" where
  "csys_init d = \<lparr>cs_buf = d, cs_run = CRSelect, cs_timers = [], cs_events = []\<rparr>"

datatype clabel =
    CLEvent CrdEvent     \<comment> \<open>\<open>Run\<close> receives an event and runs its critical section\<close>
  | CLTick "string list"      \<comment> \<open>\<open>Run\<close> receives the flush tick and collects\<close>
  | CLDone                    \<comment> \<open>\<open>Run\<close> sees the cancelled context or the closed event channel\<close>
  | CLRun "string list"       \<comment> \<open>\<open>Run\<close> goes on with its next critical section\<close>
  | CLExpire nat              \<comment> \<open>an armed timer expires and starts its goroutine\<close>
  | CLTimer nat "string list" \<comment> \<open>a timer goroutine goes on with its next critical section\<close>
  | CLTime nat                \<comment> \<open>time passes\<close>
  | CLRecv                    \<comment> \<open>the sender receives a payload\<close>

fun run_step_crd :: "string list \<Rightarrow> csys \<Rightarrow> csys option" where
  "run_step_crd ord s =
     (case cs_run s of
        CRSelect \<Rightarrow> None
      | CREmitDelete rid \<Rightarrow>
          Some (s\<lparr>cs_buf := emitPayload_crd \<lparr>crd_Upserts = [], crd_Deletes = [rid]\<rparr> (cs_buf s), cs_run := CRSelect\<rparr>)
      | CREmitBatch ups \<Rightarrow>
          Some (s\<lparr>cs_buf := emitPayload_crd \<lparr>crd_Upserts = ups, crd_Deletes = []\<rparr> (cs_buf s), cs_run := CRSelect\<rparr>)
      | CRFlushAll \<Rightarrow>
          if range_order ord (pending_crd (cs_buf s))
          then (case collectAll_crd ord (cs_buf s) of
                  (ups, d) \<Rightarrow> Some (s\<lparr>cs_buf := d, cs_run := (if ups = [] then CRClose else CREmitFinal ups)\<rparr>))
          else None
      | CREmitFinal ups \<Rightarrow>
          Some (s\<lparr>cs_buf := emitPayload_crd \<lparr>crd_Upserts = ups, crd_Deletes = []\<rparr> (cs_buf s), cs_run := CRClose\<rparr>)
      | CRClose \<Rightarrow> Some (s\<lparr>cs_buf := closePayloads_crd (cs_buf s), cs_run := CRDone\<rparr>)
      | CRDone \<Rightarrow> None)"

fun timer_step_crd :: "nat \<Rightarrow> string list \<Rightarrow> csys \<Rightarrow> csys option" where
  "timer_step_crd i ord s =
     (if i < length (cs_timers s)
      then (case cs_timers s ! i of
              CTFired captured \<Rightarrow>
                Some (s\<lparr>cs_buf := markReady_crd captured (cs_buf s), cs_timers := (cs_timers s)[i := CTMarked]\<rparr>)
            | CTMarked \<Rightarrow>
                if maxBatchSize_crd (cs_buf s) \<le> int (readyCount_crd (cs_buf s))
                then Some (s\<lparr>cs_timers := (cs_timers s)[i := CTFlush]\<rparr>)
                else Some (s\<lparr>cs_timers := drop_nth i (cs_timers s)\<rparr>)
            | CTFlush \<Rightarrow>
                if range_order ord (pending_crd (cs_buf s))
                then (case collectReady_crd ord (cs_buf s) of
                        (ups, d) \<Rightarrow>
                          Some (s\<lparr>cs_buf := d,
                                  cs_timers := (if ups = [] then drop_nth i (cs_timers s)
                                                else (cs_timers s)[i := CTEmit ups])\<rparr>))
                else None
            | CTEmit ups \<Rightarrow>
                Some (s\<lparr>cs_buf := emitPayload_crd \<lparr>crd_Upserts = ups, crd_Deletes = []\<rparr> (cs_buf s),
                        cs_timers := drop_nth i (cs_timers s)\<rparr>))
      else None)"

fun cstep :: "clabel \<Rightarrow> csys \<Rightarrow> csys option" where
  "cstep (CLEvent event) s =
     (if cs_run s = CRSelect
      then let s' = s\<lparr>cs_events := cs_events s @ [(tm_now (timers_crd (cs_buf s)), event)]\<rparr>
           in if ce_Type event = EventDelete
              then Some (s'\<lparr>cs_buf := cancelPending_crd (ce_CrdName event) (cs_buf s),
                            cs_run := CREmitDelete (ce_CrdName event)\<rparr>)
              else Some (s'\<lparr>cs_buf := debounceAdd (ce_CrdName event) (cs_buf s)\<rparr>)
      else None)"
| "cstep (CLTick ord) s =
     (if cs_run s = CRSelect \<and> range_order ord (pending_crd (cs_buf s))
      then (case collectReady_crd ord (cs_buf s) of
              (ups, d) \<Rightarrow> Some (s\<lparr>cs_buf := d, cs_run := (if ups = [] then CRSelect else CREmitBatch ups)\<rparr>))
      else None)"
| "cstep CLDone s = (if cs_run s = CRSelect then Some (s\<lparr>cs_run := CRFlushAll\<rparr>) else None)"
| "cstep (CLRun ord) s = run_step_crd ord s"
| "cstep (CLExpire i) s =
     (case expire i (timers_crd (cs_buf s)) of
        Some (captured, t) \<Rightarrow>
          Some (s\<lparr>cs_buf := (cs_buf s)\<lparr>timers_crd := t\<rparr>, cs_timers := cs_timers s @ [CTFired captured]\<rparr>)
      | None \<Rightarrow> None)"
| "cstep (CLTimer i ord) s = timer_step_crd i ord s"
| "cstep (CLTime dt) s = Some (s\<lparr>cs_buf := (cs_buf s)\<lparr>timers_crd := pass_time dt (timers_crd (cs_buf s))\<rparr>\<rparr>)"
| "cstep CLRecv s =
     (case chan_recv (crd_Payloads (cs_buf s)) of
        Received p c \<Rightarrow> Some (s\<lparr>cs_buf := (cs_buf s)\<lparr>crd_Payloads := c\<rparr>\<rparr>)
      | _ \<Rightarrow> None)"

declare run_step_crd.simps [simp del] timer_step_crd.simps [simp del]

end
