(* ===== verification/Rest_Client.thy ===== *)
theory Rest_Client
  imports Debounce Crd_Debounce "HOL-Library.Log_Nat"
begin

text \<open>
  The REST client (\<open>src/internal/client/rest.go\<close>): construction with options, \<open>Send\<close> with its
  retry loop, \<open>doPost\<close>, the backoff delay and the error classes.

  What the client calls and does not contain is an argument: the JSON encoder, the request
  constructor, the answer to each HTTP request, the cancellation of the context while \<open>Send\<close> waits, and
  the random numbers. \<open>Do\<close> of the HTTP client follows redirects, so one attempt may be several requests.
\<close>

section \<open>Binary64 numbers\<close>

text \<open>
  \<open>backoffDelay\<close> computes with \<open>float64\<close>. Every number it meets is a natural number up to a power of two,
  so a number is kept as a natural number and \<open>round53\<close> is the rounding of an operation: to 53
  significant bits, to nearest, ties to even. Scaling by a power of two is exact. The exponent is
  unbounded here; in Go a product beyond the largest \<open>float64\<close> is \<open>+Inf\<close>, which the cap by the maximal
  delay treats as it treats every large number.
\<close>

definition round_half_even :: "nat \<Rightarrow> nat \<Rightarrow> nat" where
  "round_half_even n d =
     (let q = n div d; r = n mod d in
      if 2 * r < d then q else if d < 2 * r then q + 1 else if even q then q else q + 1)"

definition round53 :: "nat \<Rightarrow> nat" where
  "round53 n = (let s = floorlog 2 n - 53 in round_half_even n (2 ^ s) * 2 ^ s)"

section \<open>The client\<close>

record RESTClient =
  endpoint :: string
  http_Timeout :: Duration
  maxRetries :: int
  initialDelay :: Duration
  maxDelay :: Duration

type_synonym client_option = "RESTClient \<Rightarrow> RESTClient"

definition WithTimeout :: "Duration \<Rightarrow> client_option" where
  "WithTimeout d c = c\<lparr>http_Timeout := d\<rparr>"

definition WithRetry :: "int \<Rightarrow> Duration \<Rightarrow> Duration \<Rightarrow> client_option" where
  "WithRetry retries initial maximal c =
     (let c = (if 0 \<le> retries then c\<lparr>maxRetries := retries\<rparr> else c);
          c = (if 0 < sint initial then c\<lparr>initialDelay := initial\<rparr> else c);
          c = (if 0 < sint maximal then c\<lparr>maxDelay := maximal\<rparr> else c)
      in if sint (maxDelay c) < sint (initialDelay c) then c\<lparr>initialDelay := maxDelay c\<rparr> else c)"

definition New_client :: "string \<Rightarrow> client_option list \<Rightarrow> RESTClient" where
  "New_client ep opts =
     fold (\<lambda>opt c. opt c) opts
       \<lparr>endpoint = ep, http_Timeout = 30 * Second, maxRetries = 3, initialDelay = 1 * Second,
        maxDelay = 30 * Second\<rparr>"

section \<open>Errors\<close>

text \<open>The errors of \<open>httpClient.Do\<close>: the transport fails, the \<open>Location\<close> of a redirect does not parse, or
  an eleventh request would be needed.\<close>

datatype do_error = TransportError string | BadLocation string | TooManyRedirects

text \<open>The errors \<open>Send\<close> returns. The last error of an exhausted \<open>Send\<close> is missing if it made no attempt.\<close>

datatype send_error =
    MarshallingPayload string
  | ContextCancelled string
  | CreatingRequest string
  | SendingRequest do_error
  | ClientError int
  | ServerError int
  | Exhausted int "send_error option"

definition isClientError :: "send_error \<Rightarrow> bool" where
  "isClientError err = (case err of ClientError _ \<Rightarrow> True | _ \<Rightarrow> False)"

text \<open>The text of an HTTP status error.\<close>

definition Error_text :: "send_error \<Rightarrow> string option" where
  "Error_text err =
     (case err of
        ClientError code \<Rightarrow> Some (''client error: HTTP '' @ Itoa code)
      | ServerError code \<Rightarrow> Some (''server error: HTTP '' @ Itoa code)
      | _ \<Rightarrow> None)"

section \<open>The payload interface\<close>

text \<open>A value of the interface \<open>Payload\<close>: the nil interface, a nil pointer in the interface, or a
  payload (by value or behind a pointer).\<close>

datatype 'p iface = NilInterface | NilPointer | Payload_of 'p

definition isNilPayload :: "'p iface \<Rightarrow> bool" where
  "isNilPayload p = (case p of NilPointer \<Rightarrow> True | _ \<Rightarrow> False)"

text \<open>The method call: on a nil interface or a nil pointer it panics (\<open>None\<close>).\<close>

definition call_IsEmpty :: "('p \<Rightarrow> bool) \<Rightarrow> 'p iface \<Rightarrow> bool option" where
  "call_IsEmpty isEmpty p = (case p of Payload_of v \<Rightarrow> Some (isEmpty v) | _ \<Rightarrow> None)"

section \<open>Sending\<close>

text \<open>
  The outside world of one \<open>Send\<close>, by the number of the attempt: the error of the request
  constructor, the answers to the requests of the attempt (the error of the transport, or status
  and \<open>Location\<close> header), the error of the context if it is
  done before the delay is over, the numerator of \<open>rand.Float64\<close> (of \<open>2 ^ 53\<close>), and the value
  the platform gives a conversion that does not fit \<open>int64\<close>.
\<close>

datatype location = NoLocation | UnparsableLocation string | Location string

record world =
  newRequest :: "nat \<Rightarrow> string option"
  answer :: "nat \<Rightarrow> nat \<Rightarrow> string + int \<times> location"
  ctxDone :: "nat \<Rightarrow> string option"
  randNum :: "nat \<Rightarrow> nat"
  outOfRange :: int

text \<open>What \<open>Send\<close> does: it waits, posts a body to an address, or follows a redirect to an address, with the body
  (again a POST) or without (then a GET).\<close>

datatype 'b action = Waited int | Posted string 'b | Followed string "'b option"

text \<open>\<open>redirectBehavior\<close>: whether the client follows the status of an answer to a request with or without body,
  and what the next request carries. A body that was dropped once is never sent again.\<close>

definition redirectBehavior :: "int \<Rightarrow> 'b option \<Rightarrow> 'b option option" where
  "redirectBehavior status carried =
     (if status \<in> {301, 302, 303} then Some None
      else if status \<in> {307, 308} then Some carried
      else None)"

text \<open>The requests of one \<open>Do\<close>, from request number \<open>k\<close> on, which is \<open>req\<close>; the client allows \<open>n\<close> more after it.\<close>

fun do_requests ::
    "world \<Rightarrow> nat \<Rightarrow> nat \<Rightarrow> nat \<Rightarrow> 'b option \<Rightarrow> 'b action \<Rightarrow> (do_error + int) \<times> 'b action list" where
  "do_requests w attempt n k carried req =
     (case answer w attempt k of
        Inl err \<Rightarrow> (Inl (TransportError err), [req])
      | Inr (status, loc) \<Rightarrow>
          (case redirectBehavior status carried of
             None \<Rightarrow> (Inr status, [req])
           | Some carried' \<Rightarrow>
               (case loc of
                  NoLocation \<Rightarrow> (Inr status, [req])
                | UnparsableLocation err \<Rightarrow> (Inl (BadLocation err), [req])
                | Location url \<Rightarrow>
                    (case n of
                       0 \<Rightarrow> (Inl TooManyRedirects, [req])
                     | Suc n' \<Rightarrow>
                         (case do_requests w attempt n' (Suc k) carried' (Followed url carried') of
                            (res, reqs) \<Rightarrow> (res, req # reqs))))))"

declare do_requests.simps [simp del]

text \<open>A client makes at most ten requests in one \<open>Do\<close>.\<close>

definition Do :: "world \<Rightarrow> nat \<Rightarrow> string \<Rightarrow> 'b \<Rightarrow> (do_error + int) \<times> 'b action list" where
  "Do w attempt url body = do_requests w attempt 9 0 (Some body) (Posted url body)"

text \<open>\<open>doPost\<close>: the error, and the requests that were made.\<close>

definition doPost :: "RESTClient \<Rightarrow> world \<Rightarrow> nat \<Rightarrow> 'b \<Rightarrow> send_error option \<times> 'b action list" where
  "doPost c w attempt body =
     (case newRequest w attempt of
        Some err \<Rightarrow> (Some (CreatingRequest err), [])
      | None \<Rightarrow>
          (case Do w attempt (endpoint c) body of
             (res, reqs) \<Rightarrow>
               ((case res of
                   Inl err \<Rightarrow> Some (SendingRequest err)
                 | Inr status \<Rightarrow>
                     if 400 \<le> status \<and> status < 500 then Some (ClientError status)
                     else if 500 \<le> status then Some (ServerError status)
                     else None),
                reqs)))"

text \<open>Delays are kept doubled, so that the half of the initial delay the formula gives for attempt 0 is a natural number
  too; doubling is exact.\<close>

definition backoffDelay :: "RESTClient \<Rightarrow> world \<Rightarrow> nat \<Rightarrow> int" where
  "backoffDelay c w attempt =
     (let delay = round53 (nat (sint (initialDelay c))) * 2 ^ attempt;
          cap = 2 * round53 (nat (sint (maxDelay c)));
          delay = (if cap < delay then cap else delay);
          jitter = round_half_even (3 * 2 ^ 53 + randNum w attempt) 4;
          nanoseconds = int (round53 (delay * jitter) div 2 ^ 54)
      in if nanoseconds < 2 ^ 63 then nanoseconds else outOfRange w)"

fun send_loop ::
    "RESTClient \<Rightarrow> world \<Rightarrow> 'b \<Rightarrow> nat \<Rightarrow> nat \<Rightarrow> send_error option \<Rightarrow> 'b action list \<Rightarrow>
     send_error option \<times> 'b action list" where
  "send_loop c w body 0 attempt lastErr acts = (Some (Exhausted (maxRetries c) lastErr), acts)"
| "send_loop c w body (Suc n) attempt lastErr acts =
     (if 0 < attempt \<and> ctxDone w attempt \<noteq> None
      then (Some (ContextCancelled (the (ctxDone w attempt))), acts)
      else
        let waits = (if 0 < attempt then [Waited (backoffDelay c w attempt)] else []);
            (err, posts) = doPost c w attempt body;
            acts = acts @ waits @ posts
        in (case err of
              None \<Rightarrow> (None, acts)
            | Some e \<Rightarrow>
                if isClientError e then (Some e, acts)
                else send_loop c w body n (attempt + 1) (Some e) acts))"

text \<open>\<open>for attempt := range c.maxRetries + 1\<close>: the sum wraps around in 64 bits, and a range over a
  negative number makes no iteration.\<close>

definition attempts :: "RESTClient \<Rightarrow> nat" where
  "attempts c = nat (sint (word_of_int (maxRetries c + 1) :: 64 word))"

text \<open>\<open>None\<close> is a panic: the method call on a nil payload that the two guards rule out.\<close>

definition Send ::
    "('p \<Rightarrow> bool) \<Rightarrow> ('p \<Rightarrow> string + 'b) \<Rightarrow> RESTClient \<Rightarrow> world \<Rightarrow> 'p iface \<Rightarrow>
     (send_error option \<times> 'b action list) option" where
  "Send isEmpty marshal c w payload =
     (if payload = NilInterface \<or> isNilPayload payload then Some (None, [])
      else (case call_IsEmpty isEmpty payload of
              None \<Rightarrow> None
            | Some True \<Rightarrow> Some (None, [])
            | Some False \<Rightarrow>
                (case payload of
                   Payload_of p \<Rightarrow>
                     (case marshal p of
                        Inl err \<Rightarrow> Some (Some (MarshallingPayload err), [])
                      | Inr body \<Rightarrow> Some (send_loop c w body (attempts c) 0 None []))
                 | _ \<Rightarrow> None)))"

end
