(* ===== verification/Wire_Format.thy ===== *)
theory Wire_Format
  imports Debounce Crd_Debounce "HOL-Library.List_Lexorder" "HOL-Library.Char_ord"
begin

text \<open>
  What the program puts on the wire: the JSON values \<open>json.Marshal\<close> gives the two payloads, after the
  struct tags in \<open>src/internal/metadata/extract.go\<close>, \<open>src/internal/controller/debounce.go\<close> and
  \<open>src/internal/controller/crd_debounce.go\<close>, and readers for them. A nil slice or map without
  \<open>omitempty\<close> becomes null, an empty slice with \<open>omitempty\<close> is left out, and the keys of a
  map are sorted. The two buffers never build an empty slice that is not nil, so a list stands
  for a slice and the empty list for nil.

  The strings are valid UTF-8, on which \<open>encoding/json\<close> loses nothing: names, kinds, labels and annotations come from the API
  server as JSON or protobuf, whose strings are valid UTF-8, and \<open>Extract\<close> only puts ASCII between them. On other strings, which
  do not occur, \<open>encoding/json\<close> would put U+FFFD for an invalid byte.
\<close>

datatype json =
    JNull
  | JString string
  | JNumber int
  | JArray "json list"
  | JObject "(string \<times> json) list"

section \<open>Encoding\<close>

definition json_strmap :: "strmap \<Rightarrow> json" where
  "json_strmap m =
     (case m of None \<Rightarrow> JNull
      | Some es \<Rightarrow> JObject (map (\<lambda>(k, v). (k, JString v)) (sort_key fst es)))"

definition json_slice :: "('a \<Rightarrow> json) \<Rightarrow> 'a list \<Rightarrow> json" where
  "json_slice f xs = (if xs = [] then JNull else JArray (map f xs))"

definition json_instance :: "ResourceInstance \<Rightarrow> json" where
  "json_instance r =
     JObject [(''id'', JString (ri_ID r)), (''namespace'', JString (ri_Namespace r)),
              (''name'', JString (ri_Name r)), (''kind'', JString (ri_Kind r)),
              (''apiVersion'', JString (ri_APIVersion r)), (''apiGroup'', JString (ri_APIGroup r)),
              (''labels'', json_strmap (ri_Labels r)), (''annotations'', json_strmap (ri_Annotations r)),
              (''createdAt'', JString (ri_CreatedAt r))]"

definition json_SyncPayload :: "SyncPayload \<Rightarrow> json" where
  "json_SyncPayload p =
     JObject [(''upserts'', json_slice json_instance (Upserts p)), (''deletes'', json_slice JString (Deletes p))]"

definition json_omitempty :: "string \<Rightarrow> string list \<Rightarrow> (string \<times> json) list" where
  "json_omitempty key xs = (if xs = [] then [] else [(key, JArray (map JString xs))])"

definition json_CrdSyncPayload :: "CrdSyncPayload \<Rightarrow> json" where
  "json_CrdSyncPayload p =
     JObject (json_omitempty ''upserts'' (crd_Upserts p) @ json_omitempty ''deletes'' (crd_Deletes p))"

section \<open>Reading\<close>

fun read_string :: "json \<Rightarrow> string option" where
  "read_string (JString s) = Some s"
| "read_string _ = None"

fun read_list :: "(json \<Rightarrow> 'a option) \<Rightarrow> json list \<Rightarrow> 'a list option" where
  "read_list f [] = Some []"
| "read_list f (j # js) =
     (case f j of None \<Rightarrow> None | Some x \<Rightarrow> map_option (Cons x) (read_list f js))"

fun read_slice :: "(json \<Rightarrow> 'a option) \<Rightarrow> json \<Rightarrow> 'a list option" where
  "read_slice f JNull = Some []"
| "read_slice f (JArray js) = read_list f js"
| "read_slice f _ = None"

fun read_pair :: "string \<times> json \<Rightarrow> (string \<times> string) option" where
  "read_pair (k, j) = map_option (Pair k) (read_string j)"

fun read_pairs :: "(string \<times> json) list \<Rightarrow> (string \<times> string) list option" where
  "read_pairs [] = Some []"
| "read_pairs (e # es) =
     (case read_pair e of None \<Rightarrow> None | Some x \<Rightarrow> map_option (Cons x) (read_pairs es))"

fun read_strmap :: "json \<Rightarrow> strmap option" where
  "read_strmap JNull = Some None"
| "read_strmap (JObject es) = map_option Some (read_pairs es)"
| "read_strmap _ = None"

definition field :: "json \<Rightarrow> string \<Rightarrow> json" where
  "field j key = (case j of JObject es \<Rightarrow> (case map_of es key of Some v \<Rightarrow> v | None \<Rightarrow> JNull) | _ \<Rightarrow> JNull)"

definition read_instance :: "json \<Rightarrow> ResourceInstance option" where
  "read_instance j =
     (case (read_string (field j ''id''), read_string (field j ''namespace''), read_string (field j ''name''),
            read_string (field j ''kind''), read_string (field j ''apiVersion''), read_string (field j ''apiGroup''),
            read_strmap (field j ''labels''), read_strmap (field j ''annotations''),
            read_string (field j ''createdAt'')) of
        (Some i, Some ns, Some n, Some k, Some av, Some ag, Some l, Some a, Some t) \<Rightarrow>
          Some \<lparr>ri_ID = i, ri_Namespace = ns, ri_Name = n, ri_Kind = k, ri_APIVersion = av, ri_APIGroup = ag,
                ri_Labels = l, ri_Annotations = a, ri_CreatedAt = t\<rparr>
      | _ \<Rightarrow> None)"

definition read_SyncPayload :: "json \<Rightarrow> SyncPayload option" where
  "read_SyncPayload j =
     (case (read_slice read_instance (field j ''upserts''), read_slice read_string (field j ''deletes'')) of
        (Some u, Some d) \<Rightarrow> Some \<lparr>Upserts = u, Deletes = d\<rparr> | _ \<Rightarrow> None)"

definition read_CrdSyncPayload :: "json \<Rightarrow> CrdSyncPayload option" where
  "read_CrdSyncPayload j =
     (case (read_slice read_string (field j ''upserts''), read_slice read_string (field j ''deletes'')) of
        (Some u, Some d) \<Rightarrow> Some \<lparr>crd_Upserts = u, crd_Deletes = d\<rparr> | _ \<Rightarrow> None)"

section \<open>Round trips\<close>

text \<open>A map with its keys in order is the same map.\<close>

definition sorted_strmap :: "strmap \<Rightarrow> strmap" where
  "sorted_strmap m = map_option (sort_key fst) m"

definition canonical :: "ResourceInstance \<Rightarrow> ResourceInstance" where
  "canonical r = r\<lparr>ri_Labels := sorted_strmap (ri_Labels r), ri_Annotations := sorted_strmap (ri_Annotations r)\<rparr>"

lemma sorted_strmap_same:
  assumes "strmap_wf m"
  shows "gm_get (map_entries (sorted_strmap m)) = gm_get (map_entries m)" "sorted_strmap m = None \<longleftrightarrow> m = None"
proof -
  have e: "map_entries (sorted_strmap m) = sort_key fst (map_entries m)"
    by (cases m) (simp_all add: sorted_strmap_def map_entries_def)
  have "gm_wf (sort_key fst (map_entries m))"
    using assms unfolding strmap_wf_def gm_wf_def gm_keys_def
    by (metis mset_eq_imp_distinct_iff mset_map mset_sort)
  then have "gm_get (sort_key fst (map_entries m)) k = gm_get (map_entries m) k" for k
    using assms gm_get_Some_iff [of "sort_key fst (map_entries m)" k]
      gm_get_Some_iff [of "map_entries m" k] unfolding strmap_wf_def
    by (metis not_None_eq set_sort)
  then show "gm_get (map_entries (sorted_strmap m)) = gm_get (map_entries m)" unfolding e by (rule ext)
  show "sorted_strmap m = None \<longleftrightarrow> m = None" by (simp add: sorted_strmap_def)
qed

lemma read_list_map: "(\<And>x. x \<in> set xs \<Longrightarrow> f (g x) = Some (h x)) \<Longrightarrow> read_list f (map g xs) = Some (map h xs)"
  by (induction xs) auto

lemma read_slice_json:
  "(\<And>x. x \<in> set xs \<Longrightarrow> f (g x) = Some (h x)) \<Longrightarrow> read_slice f (json_slice g xs) = Some (map h xs)"
  by (simp add: json_slice_def read_list_map)

lemma read_pairs_map: "read_pairs (map (\<lambda>(k, v). (k, JString v)) es) = Some es"
  by (induction es) auto

lemma read_strmap_json: "read_strmap (json_strmap m) = Some (sorted_strmap m)"
  by (cases m) (simp_all add: json_strmap_def sorted_strmap_def read_pairs_map)

lemma read_instance_json: "read_instance (json_instance r) = Some (canonical r)"
  by (simp add: read_instance_def json_instance_def field_def read_strmap_json canonical_def)

lemma read_json_SyncPayload:
  "read_SyncPayload (json_SyncPayload p) = Some (p\<lparr>Upserts := map canonical (Upserts p)\<rparr>)"
proof -
  have "read_slice read_instance (json_slice json_instance (Upserts p)) = Some (map canonical (Upserts p))"
    by (rule read_slice_json) (rule read_instance_json)
  moreover have "read_slice read_string (json_slice JString (Deletes p)) = Some (map (\<lambda>x. x) (Deletes p))"
    by (rule read_slice_json) simp
  ultimately show ?thesis by (simp add: read_SyncPayload_def json_SyncPayload_def field_def)
qed

lemma read_json_CrdSyncPayload: "read_CrdSyncPayload (json_CrdSyncPayload p) = Some p"
proof -
  have r: "read_list read_string (map JString xs) = Some xs" for xs
    using read_list_map [of xs read_string JString "\<lambda>x. x"] by simp
  have "read_slice read_string (field (json_CrdSyncPayload p) ''upserts'') = Some (crd_Upserts p)"
    "read_slice read_string (field (json_CrdSyncPayload p) ''deletes'') = Some (crd_Deletes p)"
    by (simp_all add: json_CrdSyncPayload_def json_omitempty_def field_def r)
  then show ?thesis by (simp add: read_CrdSyncPayload_def)
qed

text \<open>C33. No information is lost on the wire, for both kinds of payload: the JSON value of an instance payload reads back as the
  payload, with the keys of its label and annotation maps in order, which are the same maps; the JSON value of a CRD payload
  reads back as the payload, and it is the empty object exactly for the empty payload.\<close>

theorem payloads_roundtrip:
  "read_SyncPayload (json_SyncPayload p) = Some (p\<lparr>Upserts := map canonical (Upserts p)\<rparr>) \<and>
   (strmap_wf (ri_Labels r) \<longrightarrow>
      gm_get (map_entries (ri_Labels (canonical r))) = gm_get (map_entries (ri_Labels r))) \<and>
   (strmap_wf (ri_Annotations r) \<longrightarrow>
      gm_get (map_entries (ri_Annotations (canonical r))) = gm_get (map_entries (ri_Annotations r))) \<and>
   read_CrdSyncPayload (json_CrdSyncPayload q) = Some q \<and> (json_CrdSyncPayload q = JObject [] \<longleftrightarrow> IsEmpty_crd q)"
  by (simp add: read_json_SyncPayload read_json_CrdSyncPayload canonical_def sorted_strmap_same)
    (simp add: json_CrdSyncPayload_def json_omitempty_def IsEmpty_crd_def)

theorem payloads_roundtrip_witness:
  "read_SyncPayload (json_SyncPayload \<lparr>Upserts = [], Deletes = [''a/b'']\<rparr>) = Some \<lparr>Upserts = [], Deletes = [''a/b'']\<rparr> \<and>
   gm_get (map_entries (sorted_strmap (Some [(''b'', ''1''), (''a'', ''2'')]))) ''a'' = Some ''2''"
proof -
  define r :: ResourceInstance where
    "r = \<lparr>ri_ID = [], ri_Namespace = [], ri_Name = [], ri_Kind = [], ri_APIVersion = [], ri_APIGroup = [],
       ri_Labels = Some [(''b'', ''1''), (''a'', ''2'')], ri_Annotations = None, ri_CreatedAt = []\<rparr>"
  have "strmap_wf (ri_Labels r)" by (simp add: r_def strmap_wf_def map_entries_def gm_wf_def gm_keys_def)
  with payloads_roundtrip [of "\<lparr>Upserts = [], Deletes = [''a/b'']\<rparr>" r] show ?thesis
    by (simp add: r_def canonical_def map_entries_def [of "Some [(''b'', ''1''), (''a'', ''2'')]"] gm_get_def)
qed

end
