(* ===== verification/Rest_Properties.thy ===== *)
theory Rest_Properties
  imports Rest_Client Wire_Format
begin

text \<open>
  The retry policy of the REST client: the invariant of its options, the bounds of the backoff
  delay in binary64 arithmetic, and the outcome of \<open>Send\<close> for every behaviour of the network.
\<close>

section \<open>Rounding\<close>

lemma round_half_even_bounds:
  assumes "0 < d"
  shows "n div d \<le> round_half_even n d" "round_half_even n d \<le> n div d + 1"
    "d dvd n \<Longrightarrow> round_half_even n d = n div d"
  using assms by (auto simp: round_half_even_def Let_def)

lemma floorlog_shift:
  assumes "floorlog 2 n - 53 = s" "0 < s"
  shows "2 ^ (52 + s) \<le> n"
proof -
  have "n \<noteq> 0" using assms by (intro notI) (simp add: floorlog_def)
  moreover have "floorlog 2 n - 1 = 52 + s" using assms by simp
  ultimately show ?thesis using floorlog_bounds [of n 2] by simp
qed

text \<open>A number \<open>m * 2 ^ t\<close> with \<open>m \<le> 2 ^ 53\<close> is a binary64 number; rounding never crosses one.\<close>

lemma round53_lower:
  assumes "m \<le> 2 ^ 53" "m * 2 ^ t \<le> n"
  shows "m * 2 ^ t \<le> round53 n"
proof -
  let ?s = "floorlog 2 n - 53"
  have base: "n div 2 ^ ?s * 2 ^ ?s \<le> round53 n"
    using round_half_even_bounds(1) [of "2 ^ ?s" n] by (simp add: round53_def Let_def)
  have "m * 2 ^ t \<le> n div 2 ^ ?s * 2 ^ ?s"
  proof (cases "?s \<le> t")
    case True
    then have "m * 2 ^ t = m * 2 ^ (t - ?s) * 2 ^ ?s" by (simp flip: power_add)
    with assms(2) have "m * 2 ^ (t - ?s) \<le> n div 2 ^ ?s"
      by (metis less_eq_div_iff_mult_less_eq pos2 zero_less_power)
    then have "m * 2 ^ (t - ?s) * 2 ^ ?s \<le> n div 2 ^ ?s * 2 ^ ?s" by (rule mult_le_mono1)
    then show ?thesis unfolding \<open>m * 2 ^ t = m * 2 ^ (t - ?s) * 2 ^ ?s\<close> .
  next
    case False
    then have s: "0 < ?s" by simp
    have "2 ^ 52 * 2 ^ ?s \<le> n" using floorlog_shift [OF refl s] by (simp only: power_add)
    then have "2 ^ 52 \<le> n div 2 ^ ?s" by (simp only: less_eq_div_iff_mult_less_eq pos2 zero_less_power)
    then have "2 ^ (52 + ?s) \<le> n div 2 ^ ?s * 2 ^ ?s" by (simp only: power_add mult_le_mono1)
    moreover have "m * 2 ^ t \<le> 2 ^ (53 + t)" using assms(1) by (simp add: power_add)
    moreover have "(2::nat) ^ (53 + t) \<le> 2 ^ (52 + ?s)" using False by (intro power_increasing) auto
    ultimately show ?thesis by linarith
  qed
  with base show ?thesis by linarith
qed

lemma round53_upper:
  assumes "m \<le> 2 ^ 53" "n \<le> m * 2 ^ t"
  shows "round53 n \<le> m * 2 ^ t"
proof (cases "2 ^ (floorlog 2 n - 53) dvd n")
  case True
  then have "round53 n = n" by (simp add: round53_def Let_def round_half_even_bounds(3))
  with assms(2) show ?thesis by simp
next
  case False
  let ?s = "floorlog 2 n - 53"
  from False have s: "0 < ?s" by (intro gr0I) simp
  have "?s \<le> t"
  proof (rule ccontr)
    assume "\<not> ?s \<le> t"
    then have "m * 2 ^ t \<le> 2 ^ 53 * 2 ^ (?s - 1)"
      using assms(1) by (intro mult_mono power_increasing) auto
    also have "\<dots> = (2::nat) ^ (53 + (?s - 1))" by (rule power_add [symmetric])
    also have "53 + (?s - 1) = 52 + ?s" using s by simp
    finally have "n = 2 ^ (52 + ?s)" using assms(2) floorlog_shift [OF refl s] by simp
    then have "2 ^ ?s dvd n" by (metis dvd_triv_right power_add)
    with False show False ..
  qed
  then have m: "m * 2 ^ t = m * 2 ^ (t - ?s) * 2 ^ ?s" by (simp flip: power_add)
  have "n < m * 2 ^ (t - ?s) * 2 ^ ?s"
    using assms(2) False m by (metis dvd_triv_right le_neq_implies_less)
  then have "n div 2 ^ ?s < m * 2 ^ (t - ?s)" by (simp add: div_less_iff_less_mult)
  then have "round_half_even n (2 ^ ?s) \<le> m * 2 ^ (t - ?s)"
    using round_half_even_bounds(2) [of "2 ^ ?s" n] by simp
  then show ?thesis unfolding m by (simp add: round53_def Let_def)
qed

lemma round53_exact: "n \<le> 2 ^ 53 \<Longrightarrow> round53 n = n"
  using round53_lower [of n 0 n] round53_upper [of n n 0] by simp

section \<open>The options\<close>

definition client_ok :: "RESTClient \<Rightarrow> bool" where
  "client_ok c \<longleftrightarrow>
     0 \<le> maxRetries c \<and> 0 < sint (initialDelay c) \<and> sint (initialDelay c) \<le> sint (maxDelay c)"

lemma WithRetry_ok: "client_ok c \<Longrightarrow> client_ok (WithRetry n i m c)"
  by (auto simp: client_ok_def WithRetry_def Let_def)

lemma WithTimeout_ok: "client_ok c \<Longrightarrow> client_ok (WithTimeout d c)"
  by (simp add: client_ok_def WithTimeout_def)

lemma fold_options_ok:
  assumes "\<And>opt c. opt \<in> set opts \<Longrightarrow> client_ok c \<Longrightarrow> client_ok (opt c)" "client_ok c"
  shows "client_ok (fold (\<lambda>opt c. opt c) opts c)"
  using assms by (induction opts arbitrary: c) auto

lemma New_client_ok:
  assumes "\<And>opt c. opt \<in> set opts \<Longrightarrow> client_ok c \<Longrightarrow> client_ok (opt c)"
  shows "client_ok (New_client ep opts)"
  unfolding New_client_def
  by (rule fold_options_ok) (use assms in \<open>simp_all add: client_ok_def Second_def\<close>)

text \<open>C26. Whatever options a client is built with, it is usable: the number of retries is not negative,
  and the initial delay is positive and no longer than the maximal delay; values that would break
  this are ignored or capped.\<close>

theorem New_client_usable:
  assumes "\<forall>opt \<in> set opts. (\<exists>d. opt = WithTimeout d) \<or> (\<exists>n i m. opt = WithRetry n i m)"
  shows "0 \<le> maxRetries (New_client ep opts) \<and> 0 < sint (initialDelay (New_client ep opts)) \<and>
    sint (initialDelay (New_client ep opts)) \<le> sint (maxDelay (New_client ep opts))"
proof -
  have "client_ok (New_client ep opts)"
  proof (rule New_client_ok)
    fix opt c
    assume "opt \<in> set opts" "client_ok c"
    with assms show "client_ok (opt c)" by (auto simp: WithRetry_ok WithTimeout_ok)
  qed
  then show ?thesis by (simp add: client_ok_def)
qed

theorem New_client_usable_witness:
  "sint (initialDelay (New_client ''http://x'' [WithTimeout 5, WithRetry (- 1) (60 * Second) (- 2)])) \<le>
   sint (maxDelay (New_client ''http://x'' [WithTimeout 5, WithRetry (- 1) (60 * Second) (- 2)])) \<and>
   maxRetries (New_client ''http://x'' [WithTimeout 5, WithRetry (- 1) (60 * Second) (- 2)]) = 3"
proof -
  have "\<forall>opt \<in> set [WithTimeout 5, WithRetry (- 1) (60 * Second) (- 2)].
      (\<exists>d. opt = WithTimeout d) \<or> (\<exists>n i m. opt = WithRetry n i m)"
    by auto
  from New_client_usable [OF this, of "''http://x''"] show ?thesis
    by (simp add: New_client_def WithTimeout_def WithRetry_def Let_def)
qed

section \<open>The backoff delay\<close>

text \<open>The exact delay before jitter.\<close>

definition backoff_base :: "RESTClient \<Rightarrow> nat \<Rightarrow> int" where
  "backoff_base c attempt = min (sint (initialDelay c) * 2 ^ (attempt - 1)) (sint (maxDelay c))"

lemma jitter_bounds:
  assumes "r < 2 ^ 53"
  shows "3 * 2 ^ 51 \<le> round_half_even (3 * 2 ^ 53 + r) 4" "round_half_even (3 * 2 ^ 53 + r) 4 \<le> 2 ^ 53"
proof -
  have "3 * 2 ^ 51 \<le> (3 * 2 ^ 53 + r) div 4" by simp
  then show "3 * 2 ^ 51 \<le> round_half_even (3 * 2 ^ 53 + r) 4"
    using round_half_even_bounds(1) [of 4 "3 * 2 ^ 53 + r"] by linarith
  have "(3 * 2 ^ 53 + r) div 4 < 2 ^ 53" using assms by simp
  then show "round_half_even (3 * 2 ^ 53 + r) 4 \<le> 2 ^ 53"
    using round_half_even_bounds(2) [of 4 "3 * 2 ^ 53 + r"] by linarith
qed

lemma jittered_bounds:
  assumes "3 * 2 ^ 51 \<le> j" "j \<le> 2 ^ 53" "d \<le> 2 ^ 53"
  shows "3 * d div 4 \<le> round53 (2 * d * j) div 2 ^ 54" "round53 (2 * d * j) div 2 ^ 54 \<le> d"
proof -
  have "2 * d * j \<le> d * 2 ^ 54" using assms(2) by simp
  then have "round53 (2 * d * j) \<le> d * 2 ^ 54" by (rule round53_upper [OF assms(3)])
  then have "round53 (2 * d * j) div 2 ^ 54 \<le> d * 2 ^ 54 div 2 ^ 54" by (rule div_le_mono)
  also have "d * 2 ^ 54 div 2 ^ 54 = d" by simp
  finally show "round53 (2 * d * j) div 2 ^ 54 \<le> d" .
  let ?q = "3 * d div 4"
  have "?q * 2 ^ 54 \<le> 2 * d * (3 * 2 ^ 51)"
  proof -
    have "?q * 4 * 2 ^ 52 \<le> 3 * d * 2 ^ 52" by (intro mult_le_mono1) simp
    then show ?thesis by simp
  qed
  also have "\<dots> \<le> 2 * d * j" using assms(1) by simp
  finally have "?q * 2 ^ 54 \<le> 2 * d * j" .
  moreover have "?q \<le> 2 ^ 53" using assms(3) by linarith
  ultimately have "?q * 2 ^ 54 \<le> round53 (2 * d * j)" by (intro round53_lower)
  then have "?q * 2 ^ 54 div 2 ^ 54 \<le> round53 (2 * d * j) div 2 ^ 54" by (rule div_le_mono)
  then show "?q \<le> round53 (2 * d * j) div 2 ^ 54" by simp
qed

text \<open>C25. The backoff delay is bounded in binary64 arithmetic: for a client whose delays are at most
  \<open>2 ^ 53\<close> nanoseconds (104 days), the delay before attempt \<open>a\<close>, counted from 1, is at least three quarters and at most
  all of the initial delay doubled \<open>a - 1\<close> times and capped by the maximal delay, whatever the
  random number; no rounding or conversion leaves this range.\<close>

theorem backoffDelay_bounds:
  assumes "0 < sint (initialDelay c)" "sint (initialDelay c) \<le> sint (maxDelay c)"
    and "sint (maxDelay c) \<le> 2 ^ 53" "randNum w attempt < 2 ^ 53" "0 < attempt"
  shows "3 * backoff_base c attempt div 4 \<le> backoffDelay c w attempt \<and>
    backoffDelay c w attempt \<le> backoff_base c attempt"
proof -
  let ?i = "nat (sint (initialDelay c))" and ?m = "nat (sint (maxDelay c))"
  let ?j = "round_half_even (3 * 2 ^ 53 + randNum w attempt) 4"
  have exact: "round53 ?i = ?i" "round53 ?m = ?m"
    using assms(2,3) by (auto intro!: round53_exact simp: nat_le_iff)
  define d where "d = min (?i * 2 ^ (attempt - 1)) ?m"
  have dbl: "?i * 2 ^ attempt = 2 * (?i * 2 ^ (attempt - 1))" using assms(5) by (cases attempt) simp_all
  have cap: "(if 2 * ?m < ?i * 2 ^ attempt then 2 * ?m else ?i * 2 ^ attempt) = 2 * d"
    unfolding dbl d_def min_def by simp
  have base: "backoff_base c attempt = int d"
  proof -
    have "int ?i = sint (initialDelay c)" "int ?m = sint (maxDelay c)" using assms(1,2) by simp_all
    then show ?thesis unfolding backoff_base_def d_def of_nat_min of_nat_mult by simp
  qed
  have "d \<le> 2 ^ 53" using assms(3) by (simp add: d_def nat_le_iff)
  note J = jittered_bounds [OF jitter_bounds [OF assms(4)] this]
  let ?r = "round53 (2 * d * ?j) div 2 ^ 54"
  have "?r \<le> 2 ^ 53" using J(2) \<open>d \<le> 2 ^ 53\<close> by (rule le_trans)
  then have "int ?r \<le> int (2 ^ 53)" by (simp only: of_nat_le_iff)
  then have "int ?r < 2 ^ 63" by simp
  then have "backoffDelay c w attempt = int ?r"
    unfolding backoffDelay_def Let_def exact cap by (rule if_P)
  moreover have "3 * int d div 4 = int (3 * d div 4)" by (simp add: zdiv_int)
  ultimately show ?thesis using J base by simp
qed

definition sample_world :: "int list \<Rightarrow> world" where
  "sample_world statuses =
     \<lparr>newRequest = (\<lambda>_. None),
      answer = (\<lambda>a k. if a < length statuses then Inr (statuses ! a, NoLocation) else Inr (500, NoLocation)),
      ctxDone = (\<lambda>_. None), randNum = (\<lambda>_. 2 ^ 52), outOfRange = 0\<rparr>"

theorem backoffDelay_bounds_witness:
  "3 * backoff_base (New_client ''http://x'' []) 9 div 4 \<le> backoffDelay (New_client ''http://x'' []) (sample_world []) 9 \<and>
   backoffDelay (New_client ''http://x'' []) (sample_world []) 9 \<le> 30000000000"
proof -
  let ?c = "New_client ''http://x'' []"
  have "0 < sint (initialDelay ?c)" "sint (initialDelay ?c) \<le> sint (maxDelay ?c)"
    "sint (maxDelay ?c) \<le> 2 ^ 53" "randNum (sample_world []) 9 < 2 ^ 53" "(0::nat) < 9"
    and m: "backoff_base ?c 9 = 30000000000"
    by (simp_all add: New_client_def Second_def sample_world_def backoff_base_def)
  from backoffDelay_bounds [OF this(1-5)] m show ?thesis by simp
qed

section \<open>One round trip\<close>

text \<open>The outcome of \<open>httpClient.Do\<close> for an attempt does not depend on what is posted, or where to.\<close>

definition roundTrip :: "world \<Rightarrow> nat \<Rightarrow> do_error + int" where
  "roundTrip w a = fst (Do w a [] ())"

lemma do_requests_outcome:
  "(carried = None \<longleftrightarrow> carried' = None) \<Longrightarrow>
   fst (do_requests w a n k carried req) = fst (do_requests w a n k carried' req')"
proof (induction n arbitrary: k carried carried' req req')
  case 0
  then show ?case
    by (auto simp: do_requests.simps [of w a 0] redirectBehavior_def split: sum.splits location.splits)
next
  case (Suc n)
  then show ?case
    by (auto simp: do_requests.simps [of w a "Suc n"] redirectBehavior_def case_prod_beta
        split: sum.splits location.splits)
qed

lemma Do_outcome: "fst (Do w a url body) = roundTrip w a"
  unfolding Do_def roundTrip_def by (rule do_requests_outcome) simp

text \<open>An answer that is no redirect, or a redirect without a target, ends the round trip.\<close>

lemma Do_answered:
  "answer w a 0 = Inr (status, NoLocation) \<Longrightarrow> Do w a url body = (Inr status, [Posted url body])"
  by (simp add: Do_def do_requests.simps [of w a _ 0] redirectBehavior_def)

lemma roundTrip_answered: "answer w a 0 = Inr (status, NoLocation) \<Longrightarrow> roundTrip w a = Inr status"
  by (simp add: roundTrip_def Do_answered)

lemma sample_world_sel [simp]:
  "newRequest (sample_world statuses) a = None" "ctxDone (sample_world statuses) a = None"
  by (simp_all add: sample_world_def)

lemma roundTrip_sample [simp]:
  "roundTrip (sample_world statuses) a = Inr (if a < length statuses then statuses ! a else 500)"
  by (rule roundTrip_answered) (simp add: sample_world_def)

section \<open>The retry policy\<close>

text \<open>The policy, by what happens on the network. An attempt decides the result if the context is done during the
  backoff before it, if it is answered with a status below 400 (success), or with a 4xx status; \<open>None\<close> asks for another
  attempt. \<open>trouble\<close> is the error of an attempt that does not decide.\<close>

definition verdict :: "world \<Rightarrow> nat \<Rightarrow> send_error option option" where
  "verdict w a =
     (if 0 < a \<and> ctxDone w a \<noteq> None then Some (Some (ContextCancelled (the (ctxDone w a))))
      else (case (newRequest w a, roundTrip w a) of
              (None, Inr status) \<Rightarrow>
                if status < 400 then Some None
                else if status < 500 then Some (Some (ClientError status)) else None
            | _ \<Rightarrow> None))"

definition trouble :: "world \<Rightarrow> nat \<Rightarrow> send_error" where
  "trouble w a =
     (case (newRequest w a, roundTrip w a) of
        (Some err, _) \<Rightarrow> CreatingRequest err
      | (None, Inl err) \<Rightarrow> SendingRequest err
      | (None, Inr status) \<Rightarrow> ServerError status)"

text \<open>The reference: the first of the attempts that decides gives the result, and if none
  does the result is the last error, wrapped.\<close>

definition send_result :: "RESTClient \<Rightarrow> world \<Rightarrow> nat \<Rightarrow> send_error option" where
  "send_result c w n =
     (case find (\<lambda>a. verdict w a \<noteq> None) [0..<n] of
        Some a \<Rightarrow> the (verdict w a)
      | None \<Rightarrow> Some (Exhausted (maxRetries c) (if n = 0 then None else Some (trouble w (n - 1)))))"

lemma doPost_eq:
  "doPost c w a body =
     (case newRequest w a of
        Some err \<Rightarrow> (Some (CreatingRequest err), [])
      | None \<Rightarrow>
          ((case roundTrip w a of
              Inl err \<Rightarrow> Some (SendingRequest err)
            | Inr status \<Rightarrow>
                if 400 \<le> status \<and> status < 500 then Some (ClientError status)
                else if 500 \<le> status then Some (ServerError status)
                else None),
           snd (Do w a (endpoint c) body)))"
  unfolding doPost_def case_prod_beta Do_outcome ..

lemma doPost_decides:
  assumes "verdict w a = Some r" "a = 0 \<or> ctxDone w a = None"
  shows "\<exists>ps. doPost c w a body = (r, ps) \<and> (\<forall>e. r = Some e \<longrightarrow> isClientError e)"
  using assms
  by (auto simp: verdict_def doPost_eq isClientError_def split: option.splits sum.splits if_splits)

lemma doPost_undecided:
  assumes "verdict w a = None"
  shows "\<exists>ps. doPost c w a body = (Some (trouble w a), ps) \<and> \<not> isClientError (trouble w a)"
  using assms
  by (auto simp: verdict_def doPost_eq trouble_def isClientError_def split: option.splits sum.splits if_splits)

lemma send_loop_decided:
  assumes "verdict w a = Some r"
  shows "fst (send_loop c w body (Suc n) a lastErr acts) = r"
proof (cases "0 < a \<and> ctxDone w a \<noteq> None")
  case True
  with assms show ?thesis by (auto simp: verdict_def)
next
  case False
  then obtain ps where "doPost c w a body = (r, ps)" "\<forall>e. r = Some e \<longrightarrow> isClientError e"
    using doPost_decides [OF assms, of c body] by auto
  with False show ?thesis by (cases r) (auto simp: Let_def)
qed

lemma send_loop_undecided:
  assumes "verdict w a = None"
  shows "\<exists>acts'. send_loop c w body (Suc n) a lastErr acts =
    send_loop c w body n (Suc a) (Some (trouble w a)) acts'"
proof -
  obtain ps where "doPost c w a body = (Some (trouble w a), ps)" "\<not> isClientError (trouble w a)"
    using doPost_undecided [OF assms, of c body] by blast
  moreover have "\<not> (0 < a \<and> ctxDone w a \<noteq> None)" using assms by (auto simp: verdict_def split: if_splits)
  ultimately show ?thesis by (auto simp: Let_def)
qed

lemma send_loop_result:
  "fst (send_loop c w body n a lastErr acts) =
     (case find (\<lambda>a. verdict w a \<noteq> None) [a..<a + n] of
        Some a' \<Rightarrow> the (verdict w a')
      | None \<Rightarrow> Some (Exhausted (maxRetries c) (if n = 0 then lastErr else Some (trouble w (a + n - 1)))))"
proof (induction n arbitrary: a lastErr acts)
  case 0
  show ?case by simp
next
  case (Suc n)
  have range: "[a..<a + Suc n] = a # [Suc a..<Suc a + n]" by (simp add: upt_rec)
  show ?case
  proof (cases "verdict w a")
    case (Some r)
    then show ?thesis unfolding send_loop_decided [OF Some] range by simp
  next
    case None
    then obtain acts' where "send_loop c w body (Suc n) a lastErr acts =
        send_loop c w body n (Suc a) (Some (trouble w a)) acts'"
      using send_loop_undecided [OF None, of c body n lastErr acts] by blast
    then show ?thesis using None unfolding range by (simp only: Suc.IH) (simp split: option.splits)
  qed
qed

lemma attempts_eq: "0 \<le> maxRetries c \<Longrightarrow> maxRetries c < 2 ^ 63 - 1 \<Longrightarrow> attempts c = nat (maxRetries c) + 1"
proof -
  assume "0 \<le> maxRetries c" "maxRetries c < 2 ^ 63 - 1"
  then have "sint (word_of_int (maxRetries c + 1) :: 64 word) = maxRetries c + 1"
    by (intro sint_word_of_int_range) (simp_all add: min_int_def max_int_def)
  then show ?thesis unfolding attempts_def using \<open>0 \<le> maxRetries c\<close> by linarith
qed

section \<open>The payload interface\<close>

text \<open>What \<open>Send\<close> relies on in a payload: it is empty exactly when it carries no change, and it can be
  encoded.\<close>

locale sendable =
  fixes isEmpty :: "'p \<Rightarrow> bool"
    and encode :: "'p \<Rightarrow> 'b"
    and changes :: "'p \<Rightarrow> nat"
  assumes isEmpty_iff: "isEmpty p \<longleftrightarrow> changes p = 0"
begin

definition deliver :: "RESTClient \<Rightarrow> world \<Rightarrow> 'p iface \<Rightarrow> (send_error option \<times> 'b action list) option" where
  "deliver c w p = Send isEmpty (\<lambda>p. Inr (encode p)) c w p"

lemma deliver_total: "deliver c w p \<noteq> None"
  by (cases p)
    (auto simp: deliver_def Send_def isNilPayload_def call_IsEmpty_def split: bool.splits)

lemma deliver_nothing: "p \<in> {NilInterface, NilPointer} \<or> (\<exists>v. p = Payload_of v \<and> changes v = 0) \<Longrightarrow>
    deliver c w p = Some (None, [])"
  by (auto simp: deliver_def Send_def isNilPayload_def call_IsEmpty_def isEmpty_iff)

lemma deliver_changes:
  "0 < changes v \<Longrightarrow> deliver c w (Payload_of v) = Some (send_loop c w (encode v) (attempts c) 0 None [])"
  by (simp add: deliver_def Send_def isNilPayload_def call_IsEmpty_def isEmpty_iff)

lemma deliver_result:
  assumes "0 < changes v"
  shows "map_option fst (deliver c w (Payload_of v)) = Some (send_result c w (attempts c))"
  using deliver_changes [OF assms] send_loop_result [of c w "encode v" "attempts c" 0 None "[]"]
  by (simp add: send_result_def cong: option.case_cong)

end

interpretation instance_send: sendable IsEmpty json_SyncPayload "\<lambda>p. length (Upserts p) + length (Deletes p)"
  by unfold_locales (simp add: IsEmpty_def)

interpretation crd_send: sendable IsEmpty_crd json_CrdSyncPayload "\<lambda>p. length (crd_Upserts p) + length (crd_Deletes p)"
  by unfold_locales (simp add: IsEmpty_crd_def)

section \<open>What goes over the network\<close>

text \<open>How often \<open>Send\<close> posts to an endpoint by itself, and how many redirects it follows.\<close>

definition posts :: "'b action list \<Rightarrow> nat" where
  "posts acts = length (filter (\<lambda>a. case a of Posted _ _ \<Rightarrow> True | _ \<Rightarrow> False) acts)"

definition redirects :: "'b action list \<Rightarrow> nat" where
  "redirects acts = length (filter (\<lambda>a. case a of Followed _ _ \<Rightarrow> True | _ \<Rightarrow> False) acts)"

lemma posts_simps [simp]:
  "posts [] = 0" "posts (Waited d # acts) = posts acts" "posts (Posted e b # acts) = Suc (posts acts)"
  "posts (Followed u r # acts) = posts acts" "posts (xs @ ys) = posts xs + posts ys"
  by (simp_all add: posts_def)

lemma redirects_simps [simp]:
  "redirects [] = 0" "redirects (Waited d # acts) = redirects acts" "redirects (Posted e b # acts) = redirects acts"
  "redirects (Followed u r # acts) = Suc (redirects acts)" "redirects (xs @ ys) = redirects xs + redirects ys"
  by (simp_all add: redirects_def)

text \<open>Every action is one of the allowed ones: a POST of the body to the endpoint, a request a server has asked for by
  a redirect, with the body only if the status keeps the method, or a backoff.\<close>

definition action_ok :: "RESTClient \<Rightarrow> world \<Rightarrow> 'b \<Rightarrow> 'b action \<Rightarrow> bool" where
  "action_ok c w body act =
     (case act of
        Posted ep b \<Rightarrow> ep = endpoint c \<and> b = body
      | Followed url carried \<Rightarrow>
          \<exists>a k status. answer w a k = Inr (status, Location url) \<and>
            (status \<in> {301, 302, 303, 307, 308} \<and> carried = None \<or> status \<in> {307, 308} \<and> carried = Some body)
      | Waited d \<Rightarrow> \<exists>a > 0. d = backoffDelay c w a)"

lemma do_requests_acts:
  assumes "carried = None \<or> carried = Some body" "action_ok c w body req"
  shows "list_all (action_ok c w body) (snd (do_requests w a n k carried req)) \<and>
    (\<exists>reqs. snd (do_requests w a n k carried req) = req # reqs \<and> posts reqs = 0 \<and> redirects reqs \<le> n)"
  using assms
proof (induction n arbitrary: k carried req)
  case 0
  then show ?case
    by (auto simp: do_requests.simps [of w a 0] split: sum.splits option.splits location.splits)
next
  case (Suc n)
  show ?case
  proof (cases "\<exists>status url r. answer w a k = Inr (status, Location url) \<and> redirectBehavior status carried = Some r")
    case True
    then obtain status url r where ans: "answer w a k = Inr (status, Location url)" "redirectBehavior status carried = Some r"
      by blast
    then have "action_ok c w body (Followed url r)" "r = None \<or> r = Some body"
      using Suc.prems(1) by (auto simp: action_ok_def redirectBehavior_def split: if_splits)
    from Suc.IH [OF this(2,1), of "Suc k"] Suc.prems(2) show ?thesis
      by (auto simp: do_requests.simps [of w a "Suc n"] ans case_prod_beta)
  next
    case False
    then show ?thesis using Suc.prems(2)
      by (auto simp: do_requests.simps [of w a "Suc n"] split: sum.splits option.splits location.splits)
  qed
qed

lemma doPost_acts:
  assumes "doPost c w a body = (err, ps)"
  shows "list_all (action_ok c w body) ps \<and> posts ps \<le> 1 \<and> redirects ps \<le> 9 * posts ps"
proof -
  let ?reqs = "snd (Do w a (endpoint c) body)"
  have "action_ok c w body (Posted (endpoint c) body)" by (simp add: action_ok_def)
  from do_requests_acts [OF _ this, of "Some body" a 9 0]
  have "list_all (action_ok c w body) ?reqs \<and> posts ?reqs = 1 \<and> redirects ?reqs \<le> 9"
    unfolding Do_def by force
  moreover have "ps = [] \<or> ps = ?reqs" using assms by (auto simp: doPost_eq split: option.splits)
  ultimately show ?thesis by auto
qed

lemma send_loop_actions:
  "list_all (action_ok c w body) acts \<Longrightarrow>
   redirects acts \<le> 9 * posts acts \<Longrightarrow>
   list_all (action_ok c w body) (snd (send_loop c w body n a lastErr acts)) \<and>
   posts (snd (send_loop c w body n a lastErr acts)) \<le> posts acts + n \<and>
   redirects (snd (send_loop c w body n a lastErr acts)) \<le> 9 * posts (snd (send_loop c w body n a lastErr acts))"
proof (induction n arbitrary: a lastErr acts)
  case 0
  then show ?case by simp
next
  case (Suc n)
  obtain err ps where d: "doPost c w a body = (err, ps)" by (cases "doPost c w a body")
  note P = doPost_acts [OF d]
  let ?ws = "if 0 < a then [Waited (backoffDelay c w a)] else []"
  have ok: "list_all (action_ok c w body) (acts @ ?ws @ ps)"
    using Suc.prems P by (auto simp: action_ok_def [of _ _ _ "Waited _"])
  have cnt: "posts (acts @ ?ws @ ps) \<le> posts acts + 1" using P by simp
  have red: "redirects (acts @ ?ws @ ps) \<le> 9 * posts (acts @ ?ws @ ps)" using P Suc.prems(2) by simp
  note IH = Suc.IH [OF ok red]
  show ?case
  proof (cases "0 < a \<and> ctxDone w a \<noteq> None")
    case True
    then show ?thesis using Suc.prems by simp
  next
    case False
    have "send_loop c w body (Suc n) a lastErr acts =
        (case err of None \<Rightarrow> (None, acts @ ?ws @ ps)
         | Some e \<Rightarrow> if isClientError e then (Some e, acts @ ?ws @ ps)
                      else send_loop c w body n (a + 1) (Some e) (acts @ ?ws @ ps))"
      unfolding send_loop.simps(2) if_not_P [OF False] Let_def d prod.case ..
    then show ?thesis
      using ok cnt red IH [of "a + 1" err] by (auto split: option.splits intro: le_trans)
  qed
qed

context sendable
begin

lemma deliver_bounded:
  assumes "0 \<le> maxRetries c" "maxRetries c < 2 ^ 63 - 1"
  shows "\<exists>err acts. deliver c w payload = Some (err, acts) \<and>
    (payload \<in> {NilInterface, NilPointer} \<longrightarrow> err = None \<and> acts = []) \<and>
    (\<forall>p. payload = Payload_of p \<longrightarrow>
       (isEmpty p \<longrightarrow> err = None \<and> acts = []) \<and>
       int (posts acts) \<le> maxRetries c + 1 \<and> redirects acts \<le> 9 * posts acts \<and>
       list_all (action_ok c w (encode p)) acts)"
proof (cases "\<exists>p. payload = Payload_of p \<and> \<not> isEmpty p")
  case True
  then obtain p where p: "payload = Payload_of p" "0 < changes p" by (auto simp: isEmpty_iff)
  let ?r = "send_loop c w (encode p) (attempts c) 0 None []"
  have "list_all (action_ok c w (encode p)) (snd ?r)" "posts (snd ?r) \<le> attempts c" "redirects (snd ?r) \<le> 9 * posts (snd ?r)"
    using send_loop_actions [of c w "encode p" "[]" "attempts c" 0 None] by simp_all
  moreover have "int (attempts c) = maxRetries c + 1" using attempts_eq [OF assms] assms(1) by simp
  ultimately show ?thesis
    using p deliver_changes [OF p(2), of c w] by (intro exI [of _ "fst ?r"] exI [of _ "snd ?r"]) (auto simp: isEmpty_iff)
next
  case False
  then have "payload \<in> {NilInterface, NilPointer} \<or> (\<exists>v. payload = Payload_of v \<and> changes v = 0)"
    by (cases payload) (auto simp: isEmpty_iff)
  from deliver_nothing [OF this, of c w] show ?thesis using assms(1) by (intro exI [of _ None] exI [of _ "[]"]) simp
qed

end

section \<open>Properties of Send\<close>

text \<open>C10. The retry loop implements the retry policy, for both kinds of payload: a payload with changes
  is attempted at most \<open>maxRetries + 1\<close> times; the first attempt that succeeds, meets a client error (4xx), or finds
  the context cancelled during its backoff decides the result, and only server and network errors lead to another
  attempt; when no attempt decides, the last error is returned as exhausted.\<close>

theorem Send_follows_policy:
  assumes "0 \<le> maxRetries c" "maxRetries c < 2 ^ 63 - 1"
  shows "(\<not> IsEmpty p \<longrightarrow>
      map_option fst (Send IsEmpty (\<lambda>p. Inr (json_SyncPayload p)) c w (Payload_of p)) =
        Some (send_result c w (nat (maxRetries c) + 1))) \<and>
    (\<not> IsEmpty_crd q \<longrightarrow>
      map_option fst (Send IsEmpty_crd (\<lambda>p. Inr (json_CrdSyncPayload p)) c w (Payload_of q)) =
        Some (send_result c w (nat (maxRetries c) + 1)))"
  using instance_send.deliver_result [of p c w] crd_send.deliver_result [of q c w] attempts_eq [OF assms]
  by (simp add: instance_send.deliver_def crd_send.deliver_def IsEmpty_def IsEmpty_crd_def)

theorem Send_follows_policy_witness:
  "map_option fst (Send IsEmpty (\<lambda>p. Inr (json_SyncPayload p)) (New_client ''http://x'' []) (sample_world [503, 404])
     (Payload_of \<lparr>Upserts = [], Deletes = [''a'']\<rparr>)) = Some (Some (ClientError 404)) \<and>
   map_option fst (Send IsEmpty (\<lambda>p. Inr (json_SyncPayload p)) (New_client ''http://x'' []) (sample_world [])
     (Payload_of \<lparr>Upserts = [], Deletes = [''a'']\<rparr>)) = Some (Some (Exhausted 3 (Some (ServerError 500))))"
proof -
  let ?c = "New_client ''http://x'' []" and ?p = "\<lparr>Upserts = [], Deletes = [''a'']\<rparr>"
  have r: "maxRetries ?c = 3" by (simp add: New_client_def)
  then have c: "0 \<le> maxRetries ?c" "maxRetries ?c < 2 ^ 63 - 1" "nat (maxRetries ?c) + 1 = 4" by simp_all
  have "\<not> IsEmpty ?p" by (simp add: IsEmpty_def)
  moreover have "send_result ?c (sample_world [503, 404]) 4 = Some (ClientError 404)"
    "send_result ?c (sample_world []) 4 = Some (Exhausted 3 (Some (ServerError 500)))"
    by (simp_all add: send_result_def verdict_def trouble_def upt_rec r)
  ultimately show ?thesis
    using Send_follows_policy [OF c(1,2), of ?p] c(3) by metis
qed

text \<open>C24. \<open>Send\<close> never panics and never does more than it should, for both kinds of payload and every behaviour of the network: a
  nil or empty payload causes no request; otherwise it makes at most \<open>maxRetries + 1\<close> POST
  requests of its own, each to the configured endpoint and with the encoded payload, and it only waits for backoff delays. Other
  requests are made only because an answer redirects to their address, at most nine for each POST, and they carry the
  payload, as a POST again, only after a 307 or 308.\<close>

theorem Send_actions_bounded:
  assumes "0 \<le> maxRetries c" "maxRetries c < 2 ^ 63 - 1"
  shows "(\<exists>err acts. Send IsEmpty (\<lambda>p. Inr (json_SyncPayload p)) c w payload = Some (err, acts) \<and>
    (payload \<in> {NilInterface, NilPointer} \<longrightarrow> err = None \<and> acts = []) \<and>
    (\<forall>p. payload = Payload_of p \<longrightarrow>
       (IsEmpty p \<longrightarrow> err = None \<and> acts = []) \<and>
       int (posts acts) \<le> maxRetries c + 1 \<and> redirects acts \<le> 9 * posts acts \<and>
       list_all (action_ok c w (json_SyncPayload p)) acts)) \<and>
    (\<exists>err acts. Send IsEmpty_crd (\<lambda>p. Inr (json_CrdSyncPayload p)) c w crd_payload = Some (err, acts) \<and>
    (crd_payload \<in> {NilInterface, NilPointer} \<longrightarrow> err = None \<and> acts = []) \<and>
    (\<forall>p. crd_payload = Payload_of p \<longrightarrow>
       (IsEmpty_crd p \<longrightarrow> err = None \<and> acts = []) \<and>
       int (posts acts) \<le> maxRetries c + 1 \<and> redirects acts \<le> 9 * posts acts \<and>
       list_all (action_ok c w (json_CrdSyncPayload p)) acts))"
  using instance_send.deliver_bounded [OF assms, of w payload] crd_send.deliver_bounded [OF assms, of w crd_payload]
  unfolding instance_send.deliver_def crd_send.deliver_def by (rule conjI)

text \<open>A server that redirects every request to another address with its method and body.\<close>

definition redirecting :: world where
  "redirecting = (sample_world [])\<lparr>answer := (\<lambda>a k. Inr (307, Location ''http://y''))\<rparr>"

theorem Send_actions_bounded_witness:
  "\<exists>err acts. Send IsEmpty (\<lambda>p. Inr (json_SyncPayload p)) (New_client ''http://x'' []) redirecting
     (Payload_of \<lparr>Upserts = [], Deletes = [''a'']\<rparr>) = Some (err, acts) \<and> posts acts \<le> 4 \<and> redirects acts \<le> 36"
proof -
  have r: "maxRetries (New_client ''http://x'' []) = 3" by (simp add: New_client_def)
  then have c: "0 \<le> maxRetries (New_client ''http://x'' [])" "maxRetries (New_client ''http://x'' []) < 2 ^ 63 - 1"
    by simp_all
  from conjunct1 [OF Send_actions_bounded [OF c, of redirecting "Payload_of \<lparr>Upserts = [], Deletes = [''a'']\<rparr>" NilPointer]] r
  show ?thesis by fastforce
qed

text \<open>What redirects do to a payload: after a 301, 302 or 303 the client asks for the new address with a GET and without the
  payload, and an answer below 400 to that counts as success: \<open>Send\<close> returns no error although the payload
  was refused where it was posted and has been sent nowhere else.\<close>

theorem redirect_loses_payload:
  assumes "0 \<le> maxRetries c" "maxRetries c < 2 ^ 63 - 1" "\<not> IsEmpty p"
    and "newRequest w 0 = None" "answer w 0 0 = Inr (moved, Location url)" "moved \<in> {301, 302, 303}"
    and "answer w 0 1 = Inr (status, NoLocation)" "status < 400"
  shows "Send IsEmpty (\<lambda>p. Inr (json_SyncPayload p)) c w (Payload_of p) =
    Some (None, [Posted (endpoint c) (json_SyncPayload p), Followed url None])"
proof -
  have d: "Do w 0 (endpoint c) (json_SyncPayload p) =
      (Inr status, [Posted (endpoint c) (json_SyncPayload p), Followed url None])"
    using assms(5-7) by (auto simp: Do_def numeral_eq_Suc do_requests.simps redirectBehavior_def split: location.splits)
  have "0 < length (Upserts p) + length (Deletes p)" using assms(3) by (auto simp: IsEmpty_def)
  from instance_send.deliver_changes [OF this, of c w] attempts_eq [OF assms(1,2)] d assms(4,8) show ?thesis
    by (simp add: instance_send.deliver_def doPost_def Let_def)
qed

theorem redirect_loses_payload_witness:
  "let w = (sample_world [])\<lparr>answer := (\<lambda>a k. if k = 0 then Inr (301, Location ''http://y/'') else Inr (200, NoLocation))\<rparr>
   in Send IsEmpty (\<lambda>p. Inr (json_SyncPayload p)) (New_client ''http://y'' []) w (Payload_of \<lparr>Upserts = [], Deletes = [''a'']\<rparr>) =
     Some (None, [Posted ''http://y'' (json_SyncPayload \<lparr>Upserts = [], Deletes = [''a'']\<rparr>), Followed ''http://y/'' None])"
proof -
  let ?w = "(sample_world [])\<lparr>answer := (\<lambda>a k. if k = (0::nat) then Inr (301, Location ''http://y/'') else Inr (200, NoLocation))\<rparr>"
  have "maxRetries (New_client ''http://y'' []) = 3" "endpoint (New_client ''http://y'' []) = ''http://y''"
    by (simp_all add: New_client_def)
  then show ?thesis
    using redirect_loses_payload [of "New_client ''http://y'' []" "\<lparr>Upserts = [], Deletes = [''a'']\<rparr>" ?w 301 "''http://y/''" 200]
    by (simp add: IsEmpty_def)
qed

end
