(* ===== verification/Watcher_Properties.thy ===== *)
theory Watcher_Properties
  imports Watcher
begin

text \<open>
  What the watcher guarantees: change detection against equality of maps, discovery against
  its specification, routing of objects to the two pipelines over any sequence of informer
  callbacks, when a callback can block, and the effect of an ad-hoc resync.
\<close>

section \<open>Callback sequences\<close>

datatype callback = OnAdd any_obj | OnUpdate any_obj any_obj | OnDelete any_obj

fun run_callback :: "bool \<Rightarrow> callback \<Rightarrow> Watcher \<Rightarrow> Watcher option" where
  "run_callback pick (OnAdd obj) w = AddFunc pick obj w"
| "run_callback pick (OnUpdate oldObj newObj) w = Some (UpdateFunc pick oldObj newObj w)"
| "run_callback pick (OnDelete obj) w = DeleteFunc pick obj w"

fun run_callbacks :: "(bool \<times> callback) list \<Rightarrow> Watcher \<Rightarrow> Watcher option" where
  "run_callbacks [] w = Some w"
| "run_callbacks ((pick, cb) # cbs) w =
     (case run_callback pick cb w of None \<Rightarrow> None | Some w' \<Rightarrow> run_callbacks cbs w')"

text \<open>The object a callback reports, if it is one.\<close>

fun subject :: "callback \<Rightarrow> unstructured option" where
  "subject (OnAdd (Unstructured u)) = Some u"
| "subject (OnUpdate (Unstructured v) (Unstructured u)) = Some u"
| "subject (OnDelete (Unstructured u)) = Some u"
| "subject (OnDelete (DeletedFinalStateUnknown (Unstructured u))) = Some u"
| "subject cb = None"

fun callback_type :: "callback \<Rightarrow> EventType" where
  "callback_type (OnAdd _) = EventAdd"
| "callback_type (OnUpdate _ _) = EventUpdate"
| "callback_type (OnDelete _) = EventDelete"

text \<open>What a callback asks the watcher to emit.\<close>

datatype request = NoEvent | EmitInstance ResourceEvent | EmitCrd CrdEvent

fun requested :: "callback \<Rightarrow> request" where
  "requested (OnUpdate (Unstructured v) (Unstructured u)) =
     (if IsCRD u \<or> \<not> metadataChanged v u then NoEvent
      else EmitInstance \<lparr>re_Type = EventUpdate, re_Instance = Extract u\<rparr>)"
| "requested cb =
     (case subject cb of
        None \<Rightarrow> NoEvent
      | Some u \<Rightarrow>
          if IsCRD u then EmitCrd \<lparr>ce_Type = callback_type cb, ce_CrdName = GetName u\<rparr>
          else EmitInstance \<lparr>re_Type = callback_type cb, re_Instance = Extract u\<rparr>)"

lemma run_callback_requested:
  "run_callback pick cb w =
     (case requested cb of
        NoEvent \<Rightarrow> Some w
      | EmitInstance e \<Rightarrow> Some (emit pick e w)
      | EmitCrd e \<Rightarrow> emitCrd pick e w)"
  by (cases cb rule: requested.cases)
    (auto simp: AddFunc_def UpdateFunc_def DeleteFunc_def split: any_obj.splits)

lemma emit_sent:
  "\<not> ch_closed (Events w) \<Longrightarrow>
   ch_sent (Events (emit pick e w)) = ch_sent (Events w) \<or>
   ch_sent (Events (emit pick e w)) = ch_sent (Events w) @ [e]"
  by (auto simp: emit_def chan_send_nb_def)

lemma emitCrd_sent:
  "\<not> ch_closed (CrdEvents w) \<Longrightarrow> emitCrd pick e w = Some w' \<Longrightarrow>
   ch_sent (CrdEvents w') = ch_sent (CrdEvents w) \<or>
   ch_sent (CrdEvents w') = ch_sent (CrdEvents w) @ [e]"
  by (auto simp: emitCrd_def chan_send_nb_def chan_send_def split: if_splits)

lemma emit_Events_closed [simp]: "ch_closed (Events (emit pick e w)) = ch_closed (Events w)"
  by (simp add: emit_def)

lemma emitCrd_closed: "emitCrd pick e w = Some w' \<Longrightarrow> ch_closed (CrdEvents w') = ch_closed (CrdEvents w)"
  by (auto simp: emitCrd_def chan_send_def split: if_splits)

text \<open>One callback adds to at most one channel, and at most the event it requests.\<close>

lemma run_callback_sent:
  assumes "run_callback pick cb w = Some w'" "\<not> ch_closed (Events w)" "\<not> ch_closed (CrdEvents w)"
  shows "set (ch_sent (Events w')) \<subseteq> set (ch_sent (Events w)) \<union> {e. requested cb = EmitInstance e}"
    and "set (ch_sent (CrdEvents w')) \<subseteq> set (ch_sent (CrdEvents w)) \<union> {e. requested cb = EmitCrd e}"
    and "\<not> ch_closed (Events w')" "\<not> ch_closed (CrdEvents w')"
proof -
  note rc = assms(1) [unfolded run_callback_requested]
  show "set (ch_sent (Events w')) \<subseteq> set (ch_sent (Events w)) \<union> {e. requested cb = EmitInstance e}"
  proof (cases "requested cb")
    case (EmitInstance e)
    with rc emit_sent [OF assms(2), of pick e] show ?thesis by auto
  qed (use rc in \<open>auto dest: emitCrd_other\<close>)
  show "set (ch_sent (CrdEvents w')) \<subseteq> set (ch_sent (CrdEvents w)) \<union> {e. requested cb = EmitCrd e}"
  proof (cases "requested cb")
    case (EmitCrd e)
    with rc emitCrd_sent [OF assms(3), of pick e] show ?thesis by auto
  qed (use rc in auto)
  show "\<not> ch_closed (Events w')" "\<not> ch_closed (CrdEvents w')"
    using rc assms(2,3) by (auto split: request.splits dest: emitCrd_other emitCrd_closed)
qed

lemma run_callbacks_sent:
  "run_callbacks cbs w = Some w' \<Longrightarrow> \<not> ch_closed (Events w) \<Longrightarrow> \<not> ch_closed (CrdEvents w) \<Longrightarrow>
   set (ch_sent (Events w')) \<subseteq>
     set (ch_sent (Events w)) \<union> {e. \<exists>cb \<in> snd ` set cbs. requested cb = EmitInstance e} \<and>
   set (ch_sent (CrdEvents w')) \<subseteq>
     set (ch_sent (CrdEvents w)) \<union> {e. \<exists>cb \<in> snd ` set cbs. requested cb = EmitCrd e}"
proof (induction cbs w rule: run_callbacks.induct)
  case (1 w)
  then show ?case by auto
next
  case (2 pick cb cbs w)
  from "2.prems"(1) obtain v where v: "run_callback pick cb w = Some v" "run_callbacks cbs v = Some w'"
    by (auto split: option.splits)
  note one = run_callback_sent [OF v(1) "2.prems"(2,3)]
  from "2.IH" [OF v one(3,4)] one(1,2) show ?case by (simp, blast)
qed

lemma requested_instance:
  "requested cb = EmitInstance e \<Longrightarrow>
   \<exists>u. subject cb = Some u \<and> \<not> IsCRD u \<and> re_Instance e = Extract u \<and> re_Type e = callback_type cb"
  by (cases cb rule: requested.cases) (auto split: option.splits if_splits)

lemma requested_crd:
  "requested cb = EmitCrd e \<Longrightarrow>
   \<exists>u. subject cb = Some u \<and> IsCRD u \<and> ce_CrdName e = GetName u \<and> ce_Type e = callback_type cb \<and>
       ce_Type e \<noteq> EventUpdate"
  by (cases cb rule: requested.cases) (auto split: option.splits if_splits)

lemma subject_OnDelete_iff:
  "subject (OnDelete obj) = Some u \<longleftrightarrow>
     obj = Unstructured u \<or> obj = DeletedFinalStateUnknown (Unstructured u)"
  by (cases "OnDelete obj" rule: subject.cases) auto

lemma emitCrd_blocks_iff:
  "emitCrd pick e w = None \<longleftrightarrow>
     ce_Type e = EventDelete \<and> \<not> ch_closed (stopCh w) \<and> \<not> ch_closed (CrdEvents w) \<and>
     \<not> chan_room (CrdEvents w)"
  by (auto simp: emitCrd_def chan_send_def)

lemma listed_gvrs_iff:
  "g \<in> set (listed_gvrs u parseGV f ls) \<longleftrightarrow>
     (\<exists>gv r. g = \<lparr>gvr_Group = fst gv, gvr_Version = snd gv, gvr_Resource = ar_Name r\<rparr> \<and>
        (\<exists>s rs. (s, rs) \<in> set ls \<and> parseGV s = Some gv \<and> r \<in> set rs \<and>
          CHR ''/'' \<notin> set (ar_Name r) \<and> ShouldWatch u f r))"
proof (induction ls)
  case Nil
  show ?case by (simp add: listed_gvrs_def)
next
  case (Cons l ls)
  obtain s rs where l: "l = (s, rs)" by (cases l)
  have "listed_gvrs u parseGV f (l # ls) = (case parseGV s of
         None \<Rightarrow> []
       | Some gv \<Rightarrow> map (\<lambda>r. \<lparr>gvr_Group = fst gv, gvr_Version = snd gv, gvr_Resource = ar_Name r\<rparr>)
           (filter (\<lambda>r. CHR ''/'' \<notin> set (ar_Name r) \<and> ShouldWatch u f r) rs)) @ listed_gvrs u parseGV f ls"
    by (simp add: listed_gvrs_def l)
  with Cons.IH show ?case by (cases "parseGV s") (auto simp: l, blast+)
qed

text \<open>Discovery. The watched types are exactly the resources of the parseable groups that
  are not subresources and pass the filter, plus the custom resource definitions whenever the
  capabilities pipeline is on, whatever the filter says.\<close>

lemma discoverResources_set:
  "set (discoverResources u parseGV resourceLists w) =
     {\<lparr>gvr_Group = fst gv, gvr_Version = snd gv, gvr_Resource = ar_Name r\<rparr> | gv r.
        \<exists>s rs. (s, rs) \<in> set resourceLists \<and> parseGV s = Some gv \<and> r \<in> set rs \<and>
          CHR ''/'' \<notin> set (ar_Name r) \<and> ShouldWatch u (w_filter w) r} \<union>
     (if watchCRDs w then {crdGVR} else {})"
proof -
  have "set (discoverResources u parseGV resourceLists w) =
      set (listed_gvrs u parseGV (w_filter w) resourceLists) \<union> (if watchCRDs w then {crdGVR} else {})"
    by (auto simp: discoverResources_def lists_loop_eq)
  then show ?thesis by (auto simp only: listed_gvrs_iff set_eq_iff Un_iff mem_Collect_eq)
qed

section \<open>Resync lemmas\<close>

lemma resync_items_total:
  "\<exists>w'. resync_items others pick items tot w = Some (tot + length items, w')"
proof (induction items arbitrary: tot w)
  case Nil
  show ?case by simp
next
  case (Cons obj items)
  show ?case
  proof (cases "IsCRD obj")
    case True
    obtain v where "emitCrd (pick tot) \<lparr>ce_Type = EventAdd, ce_CrdName = GetName obj\<rparr> (others tot w) = Some v"
      using emitCrd_add_total by (metis CrdEvent.select_convs(1) EventType.distinct(3))
    with True Cons [of "Suc tot" v] show ?thesis by simp
  next
    case False
    with Cons [of "Suc tot"] show ?thesis by simp
  qed
qed

definition listed_objects ::
    "(GroupVersionResource \<Rightarrow> string + unstructured list) \<Rightarrow> GroupVersionResource list \<Rightarrow> unstructured list" where
  "listed_objects lister gvrs =
     concat (map (\<lambda>g. case lister g of Inl _ \<Rightarrow> [] | Inr items \<Rightarrow> items) gvrs)"

lemma resync_items_append:
  "resync_items others pick (xs @ ys) tot w =
     Option.bind (resync_items others pick xs tot w) (\<lambda>(t, v). resync_items others pick ys t v)"
  by (induction xs arbitrary: tot w) (auto split: option.splits)

lemma resync_gvrs_items:
  "resync_gvrs lister others pick gvrs tot w =
     resync_items others pick (listed_objects lister gvrs) tot w"
proof (induction gvrs arbitrary: tot w)
  case Nil
  show ?case by (simp add: listed_objects_def)
next
  case (Cons g gvrs)
  show ?case
    by (cases "lister g")
      (auto simp: Cons.IH listed_objects_def resync_items_append split: option.splits)
qed

text \<open>One event of a resync is one add callback for the listed object: the informers' callbacks and a resync put
  the same events into the channels.\<close>

lemma resync_items_AddFunc:
  "resync_items others pick (obj # objs) tot w =
     Option.bind (AddFunc (pick tot) (Unstructured obj) (others tot w)) (resync_items others pick objs (Suc tot))"
  by (simp add: AddFunc_def split: option.splits)

text \<open>A running watcher with room in the channel an object goes to.\<close>

definition accepts :: "unstructured \<Rightarrow> Watcher \<Rightarrow> bool" where
  "accepts obj w \<longleftrightarrow>
     \<not> ch_closed (stopCh w) \<and>
     (if IsCRD obj then \<not> ch_closed (CrdEvents w) \<and> chan_room (CrdEvents w)
      else \<not> ch_closed (Events w) \<and> chan_room (Events w))"

text \<open>The events of one object for the two channels.\<close>

definition instance_adds :: "unstructured \<Rightarrow> ResourceEvent list" where
  "instance_adds u = (if IsCRD u then [] else [\<lparr>re_Type = EventAdd, re_Instance = Extract u\<rparr>])"

definition crd_adds :: "unstructured \<Rightarrow> CrdEvent list" where
  "crd_adds u = (if IsCRD u then [\<lparr>ce_Type = EventAdd, ce_CrdName = GetName u\<rparr>] else [])"

lemma resync_one:
  assumes "accepts obj (others n v)"
  shows "\<exists>v'. resync_items others pick [obj] n v = Some (Suc n, v') \<and>
    ch_sent (Events v') = ch_sent (Events (others n v)) @ instance_adds obj \<and>
    ch_sent (CrdEvents v') = ch_sent (CrdEvents (others n v)) @ crd_adds obj"
proof (cases "IsCRD obj")
  case True
  let ?e = "\<lparr>ce_Type = EventAdd, ce_CrdName = GetName obj\<rparr>"
  have "emitCrd (pick n) ?e (others n v) = Some ((others n v)\<lparr>CrdEvents := chan_push ?e (CrdEvents (others n v))\<rparr>)"
    using assms True by (intro emitCrd_running_room) (simp_all add: accepts_def)
  with True show ?thesis by (simp add: instance_adds_def crd_adds_def)
next
  case False
  let ?e = "\<lparr>re_Type = EventAdd, re_Instance = Extract obj\<rparr>"
  have "Events (emit (pick n) ?e (others n v)) = chan_push ?e (Events (others n v))"
    using assms False by (intro emit_running_room) (simp_all add: accepts_def)
  with False show ?thesis by (simp add: instance_adds_def crd_adds_def)
qed

lemma resync_items_accepted:
  assumes "\<forall>n < length objs. \<forall>v. resync_items others pick (take n objs) 0 w = Some (n, v) \<longrightarrow>
      accepts (objs ! n) (others n v) \<and>
      ch_sent (Events (others n v)) = ch_sent (Events v) @ sent n \<and>
      ch_sent (CrdEvents (others n v)) = ch_sent (CrdEvents v) @ crd_sent n"
  shows "k \<le> length objs \<Longrightarrow> \<exists>v. resync_items others pick (take k objs) 0 w = Some (k, v) \<and>
    ch_sent (Events v) = ch_sent (Events w) @ concat (map (\<lambda>n. sent n @ instance_adds (objs ! n)) [0..<k]) \<and>
    ch_sent (CrdEvents v) = ch_sent (CrdEvents w) @ concat (map (\<lambda>n. crd_sent n @ crd_adds (objs ! n)) [0..<k])"
proof (induction k)
  case 0
  show ?case by simp
next
  case (Suc k)
  then obtain v where v: "resync_items others pick (take k objs) 0 w = Some (k, v)"
    "ch_sent (Events v) = ch_sent (Events w) @ concat (map (\<lambda>n. sent n @ instance_adds (objs ! n)) [0..<k])"
    "ch_sent (CrdEvents v) = ch_sent (CrdEvents w) @ concat (map (\<lambda>n. crd_sent n @ crd_adds (objs ! n)) [0..<k])"
    by auto
  with assms Suc.prems have acc: "accepts (objs ! k) (others k v)"
    "ch_sent (Events (others k v)) = ch_sent (Events v) @ sent k"
    "ch_sent (CrdEvents (others k v)) = ch_sent (CrdEvents v) @ crd_sent k" by simp_all
  have "resync_items others pick (take (Suc k) objs) 0 w = resync_items others pick [objs ! k] k v"
    using Suc.prems v(1) by (simp add: take_Suc_conv_app_nth resync_items_append del: resync_items.simps)
  with resync_one [of "objs ! k" others k v pick, OF acc(1)] v(2,3) acc(2,3) show ?case by (auto simp del: resync_items.simps)
qed

section \<open>Properties\<close>

text \<open>Change detection is equality of the label maps: for maps without empty values,
  \<open>mapsEqual\<close> says that two maps have the same size and entries, in whatever order a range
  loop visits them, and a nil map equals an empty one.\<close>

theorem mapsEqual_correct:
  assumes "strmap_wf a" "strmap_wf b" "\<forall>k. gm_get (map_entries a) k \<noteq> Some []"
  shows "mapsEqual a b \<longleftrightarrow> gm_get (map_entries a) = gm_get (map_entries b)"
  using mapsEqual_imp_eq [OF assms(1,2)] mapsEqual_of_eq [OF assms(1,2)] assms(3) by blast

theorem mapsEqual_correct_witness:
  "\<not> mapsEqual (Some [(''app'', ''nginx'')]) (Some [(''app'', ''web'')]) \<and> mapsEqual None (Some [])"
proof -
  have "mapsEqual (Some [(''app'', ''nginx'')]) (Some [(''app'', ''web'')]) \<longleftrightarrow>
      gm_get (map_entries (Some [(''app'', ''nginx'')])) = gm_get (map_entries (Some [(''app'', ''web'')]))"
    by (rule mapsEqual_correct)
      (auto simp: strmap_wf_def map_entries_def gm_wf_def gm_keys_def gm_get_def)
  moreover have "gm_get (map_entries (Some [(''app'', ''nginx'')])) ''app'' \<noteq>
      gm_get (map_entries (Some [(''app'', ''web'')])) ''app''"
    by (simp add: map_entries_def gm_get_def)
  moreover have "mapsEqual None (Some [])"
    by (subst mapsEqual_correct) (simp_all add: strmap_wf_def map_entries_def)
  ultimately show ?thesis by metis
qed


text \<open>The informers' periodic resync never reaches the pipeline: it calls the update
  callback with the same object as old and new, and for any list of cached objects every such
  call leaves the watcher as it is.\<close>

theorem periodic_resync_emits_nothing:
  "run_callbacks (map (\<lambda>(pick, u). (pick, OnUpdate (Unstructured u) (Unstructured u))) objs) w = Some w"
  by (induction objs arbitrary: w) (auto simp: UpdateFunc_def metadataChanged_def)

text \<open>C19. Routing. Over any sequence of informer callbacks that runs to its end, every event put
  into the instance channel carries the extracted metadata of a reported object that is not a
  custom resource definition, and every event put into the CRD channel is an add or a delete
  and carries the name of a reported custom resource definition.\<close>

theorem callbacks_route:
  assumes "run_callbacks cbs w = Some w'" "\<not> ch_closed (Events w)" "\<not> ch_closed (CrdEvents w)"
    and "ch_sent (Events w) = []" "ch_sent (CrdEvents w) = []"
  shows "(\<forall>e \<in> set (ch_sent (Events w')). \<exists>cb \<in> snd ` set cbs. \<exists>u.
            subject cb = Some u \<and> \<not> IsCRD u \<and> re_Instance e = Extract u \<and> re_Type e = callback_type cb) \<and>
         (\<forall>e \<in> set (ch_sent (CrdEvents w')). \<exists>cb \<in> snd ` set cbs. \<exists>u.
            subject cb = Some u \<and> IsCRD u \<and> ce_CrdName e = GetName u \<and> ce_Type e = callback_type cb \<and>
            ce_Type e \<noteq> EventUpdate)"
proof -
  have "set (ch_sent (Events w')) \<subseteq> {e. \<exists>cb \<in> snd ` set cbs. requested cb = EmitInstance e}"
    and "set (ch_sent (CrdEvents w')) \<subseteq> {e. \<exists>cb \<in> snd ` set cbs. requested cb = EmitCrd e}"
    using run_callbacks_sent [OF assms(1-3)] assms(4,5) by auto
  then show ?thesis using requested_instance requested_crd by blast
qed

definition test_watcher :: Watcher where
  "test_watcher =
     \<lparr>w_filter = \<lparr>watchTypes = [], excludeTypes = []\<rparr>, w_resyncInterval = 0, watchCRDs = True,
      Events = make_chan 2, CrdEvents = make_chan 2, watchedGVRs = [crdGVR], informers = [crdGVR],
      stopCh = make_chan 0, stopOnce = False\<rparr>"

definition test_crd :: unstructured where
  "test_crd =
     \<lparr>GetNamespace = '''', GetAPIVersion = ''apiextensions.k8s.io/v1'', GetKind = ''CustomResourceDefinition'',
      GetName = ''issuers.cert-manager.io'', GetLabels = None, GetAnnotations = None,
      GetCreationTimestamp = 0, GetResourceVersion = ''1''\<rparr>"

lemma IsCRD_test_crd: "IsCRD test_crd"
  by (simp add: IsCRD_def test_crd_def HasPrefix_def)

theorem callbacks_route_witness:
  "\<exists>w'. run_callbacks [(False, OnAdd (Unstructured test_crd))] test_watcher = Some w' \<and>
     ch_sent (Events w') = [] \<and>
     ch_sent (CrdEvents w') = [\<lparr>ce_Type = EventAdd, ce_CrdName = ''issuers.cert-manager.io''\<rparr>]"
proof -
  let ?e = "\<lparr>ce_Type = EventAdd, ce_CrdName = ''issuers.cert-manager.io''\<rparr>"
  let ?w = "test_watcher\<lparr>CrdEvents := chan_push ?e (make_chan 2)\<rparr>"
  have r: "run_callbacks [(False, OnAdd (Unstructured test_crd))] test_watcher = Some ?w"
    using IsCRD_test_crd
    by (simp add: AddFunc_def emitCrd_def test_watcher_def chan_send_nb_def chan_room_def)
      (simp add: test_crd_def)
  have "\<forall>e \<in> set (ch_sent (CrdEvents ?w)). ce_Type e \<noteq> EventUpdate"
    using callbacks_route [OF r] by (simp add: test_watcher_def)
  with r show ?thesis by (auto simp: test_watcher_def)
qed

text \<open>C20. A callback blocks its informer exactly when it reports the deletion of a custom
  resource definition to a running watcher whose CRD channel is full; no callback about any
  other object ever blocks.\<close>

theorem callback_blocks_iff:
  "run_callback pick cb w = None \<longleftrightarrow>
     (\<exists>u. cb \<in> {OnDelete (Unstructured u), OnDelete (DeletedFinalStateUnknown (Unstructured u))} \<and>
          IsCRD u) \<and>
     \<not> ch_closed (stopCh w) \<and> \<not> ch_closed (CrdEvents w) \<and> \<not> chan_room (CrdEvents w)"
  by (cases cb rule: requested.cases)
    (auto simp: run_callback_requested emitCrd_blocks_iff subject_OnDelete_iff
      simp del: not_None_eq split: option.splits)

text \<open>An ad-hoc resync always ends, without an error, and reports the number of objects the
  successful list calls returned, whatever other goroutines do to the channels meanwhile and
  whether or not the events found room.\<close>

lemma TriggerResync_count:
  "\<exists>w'. TriggerResync lister others pick w =
     Some ((length (listed_objects lister (watchedGVRs w)), None), w')"
  using resync_items_total [of others pick "listed_objects lister (watchedGVRs w)" 0 w]
  by (auto simp: TriggerResync_def resync_gvrs_items)

text \<open>C21. An ad-hoc resync pushes the complete listed state, whatever the other goroutines do meanwhile. While it runs,
  the buffers receive and informers emit events of their own: \<open>others n\<close> is all
  that happens before the resync emits object number \<open>n\<close>, and \<open>sent n\<close> and \<open>crd_sent n\<close> are the events the others send then. If at
  each of its emits the watcher runs and the channel of the object has room, the events sent by the end are exactly those of the
  others and one add event per listed object, in order: custom resource definitions by name on the CRD
  channel, the metadata of everything else on the instance channel; and the count is the number of objects.\<close>

theorem TriggerResync_complete:
  assumes "objs = listed_objects lister (watchedGVRs w)"
    and "\<forall>n < length objs. \<forall>v. resync_items others pick (take n objs) 0 w = Some (n, v) \<longrightarrow>
      accepts (objs ! n) (others n v) \<and>
      ch_sent (Events (others n v)) = ch_sent (Events v) @ sent n \<and>
      ch_sent (CrdEvents (others n v)) = ch_sent (CrdEvents v) @ crd_sent n"
  shows "\<exists>w'. TriggerResync lister others pick w = Some ((length objs, None), w') \<and>
    ch_sent (Events w') = ch_sent (Events w) @
      concat (map (\<lambda>n. sent n @ (if IsCRD (objs ! n) then [] else [\<lparr>re_Type = EventAdd, re_Instance = Extract (objs ! n)\<rparr>]))
        [0..<length objs]) \<and>
    ch_sent (CrdEvents w') = ch_sent (CrdEvents w) @
      concat (map (\<lambda>n. crd_sent n @ (if IsCRD (objs ! n) then [\<lparr>ce_Type = EventAdd, ce_CrdName = GetName (objs ! n)\<rparr>] else []))
        [0..<length objs])"
  using resync_items_accepted [OF assms(2) order_refl]
  by (auto simp: TriggerResync_def resync_gvrs_items instance_adds_def crd_adds_def simp flip: assms(1))

text \<open>Three definitions pass a channel of capacity two, because the buffer receives meanwhile.\<close>

definition receiving :: "nat \<Rightarrow> Watcher \<Rightarrow> Watcher" where
  "receiving n v = (case chan_recv (CrdEvents v) of Received e c \<Rightarrow> v\<lparr>CrdEvents := c\<rparr> | _ \<Rightarrow> v)"

theorem TriggerResync_complete_witness:
  "\<exists>w'. TriggerResync (\<lambda>_. Inr [test_crd, test_crd, test_crd]) receiving (\<lambda>_. False) test_watcher = Some ((3, None), w') \<and>
     ch_cap (CrdEvents test_watcher) = 2 \<and>
     ch_sent (CrdEvents w') = replicate 3 \<lparr>ce_Type = EventAdd, ce_CrdName = ''issuers.cert-manager.io''\<rparr>"
proof -
  let ?objs = "[test_crd, test_crd, test_crd]"
  have l: "?objs = listed_objects (\<lambda>_. Inr ?objs) (watchedGVRs test_watcher)"
    by (simp add: listed_objects_def test_watcher_def)
  have n: "n < length ?objs \<longleftrightarrow> n = 0 \<or> n = 1 \<or> n = 2" for n by auto
  have "\<forall>n < length ?objs. \<forall>v. resync_items receiving (\<lambda>_. False) (take n ?objs) 0 test_watcher = Some (n, v) \<longrightarrow>
      accepts (?objs ! n) (receiving n v) \<and>
      ch_sent (Events (receiving n v)) = ch_sent (Events v) @ [] \<and>
      ch_sent (CrdEvents (receiving n v)) = ch_sent (CrdEvents v) @ []"
    unfolding n
    by (auto simp: receiving_def chan_recv_def test_watcher_def IsCRD_test_crd accepts_def emitCrd_def chan_room_def
        chan_send_nb_def numeral_2_eq_2)
  from TriggerResync_complete [OF l this] IsCRD_test_crd show ?thesis
    by (auto simp: test_watcher_def numeral_3_eq_3 upt_rec) (simp_all add: test_crd_def)
qed

text \<open>C29. An update is reported exactly when it should be: for labels and annotations without empty values in the old object, the
  update callback emits one update event with the metadata of the new object if that is not a custom resource
  definition, the resource versions differ, and the labels or the annotations differ as maps; otherwise it leaves the watcher as it
  is. In particular the informers' periodic resync, with the same object twice, is never reported.\<close>

theorem update_reported_iff:
  assumes "strmap_wf (GetLabels v)" "strmap_wf (GetLabels u)" "strmap_wf (GetAnnotations v)" "strmap_wf (GetAnnotations u)"
    and "\<forall>k. gm_get (map_entries (GetLabels v)) k \<noteq> Some [] \<and> gm_get (map_entries (GetAnnotations v)) k \<noteq> Some []"
  shows "run_callback pick (OnUpdate (Unstructured v) (Unstructured u)) w =
    Some (if \<not> IsCRD u \<and> GetResourceVersion v \<noteq> GetResourceVersion u \<and>
             (gm_get (map_entries (GetLabels v)) \<noteq> gm_get (map_entries (GetLabels u)) \<or>
              gm_get (map_entries (GetAnnotations v)) \<noteq> gm_get (map_entries (GetAnnotations u)))
          then emit pick \<lparr>re_Type = EventUpdate, re_Instance = Extract u\<rparr> w else w)"
  using mapsEqual_correct [OF assms(1,2)] mapsEqual_correct [OF assms(3,4)] assms(5)
  by (simp add: UpdateFunc_def metadataChanged_def)

theorem update_reported_iff_witness:
  "let v = test_crd\<lparr>GetKind := ''Pod'', GetLabels := Some [(''a'', ''1''), (''b'', ''2'')]\<rparr>;
       u = v\<lparr>GetLabels := Some [(''b'', ''2''), (''a'', ''1'')], GetResourceVersion := ''2''\<rparr>;
       u' = u\<lparr>GetLabels := Some [(''b'', ''3''), (''a'', ''1'')]\<rparr>
   in run_callback False (OnUpdate (Unstructured v) (Unstructured u)) test_watcher = Some test_watcher \<and>
      run_callback False (OnUpdate (Unstructured v) (Unstructured u')) test_watcher =
        Some (emit False \<lparr>re_Type = EventUpdate, re_Instance = Extract u'\<rparr> test_watcher)"
proof -
  let ?v = "test_crd\<lparr>GetKind := ''Pod'', GetLabels := Some [(''a'', ''1''), (''b'', ''2'')]\<rparr>"
  let ?u = "?v\<lparr>GetLabels := Some [(''b'', ''2''), (''a'', ''1'')], GetResourceVersion := ''2''\<rparr>"
  let ?u' = "?u\<lparr>GetLabels := Some [(''b'', ''3''), (''a'', ''1'')]\<rparr>"
  have wf: "strmap_wf (GetLabels ?v)" "strmap_wf (GetLabels ?u)" "strmap_wf (GetLabels ?u')"
    "strmap_wf (GetAnnotations ?v)" "strmap_wf (GetAnnotations ?u)" "strmap_wf (GetAnnotations ?u')"
    by (simp_all add: test_crd_def strmap_wf_def map_entries_def gm_wf_def gm_keys_def)
  have ne: "\<forall>k. gm_get (map_entries (GetLabels ?v)) k \<noteq> Some [] \<and> gm_get (map_entries (GetAnnotations ?v)) k \<noteq> Some []"
    by (simp add: test_crd_def map_entries_def gm_get_def)
  have same: "gm_get (map_entries (GetLabels ?v)) = gm_get (map_entries (GetLabels ?u))"
    "GetAnnotations ?v = GetAnnotations ?u" "GetAnnotations ?v = GetAnnotations ?u'"
    by (auto simp: map_entries_def gm_get_def fun_eq_iff)
  have "gm_get (map_entries (GetLabels ?v)) ''b'' \<noteq> gm_get (map_entries (GetLabels ?u')) ''b''"
    by (simp add: map_entries_def gm_get_def)
  then have diff: "gm_get (map_entries (GetLabels ?v)) \<noteq> gm_get (map_entries (GetLabels ?u'))" by metis
  have k: "\<not> IsCRD ?u'" "GetResourceVersion ?v \<noteq> GetResourceVersion ?u'" by (simp_all add: IsCRD_def test_crd_def)
  note R = update_reported_iff [OF wf(1,2,4,5) ne, of False test_watcher] update_reported_iff [OF wf(1,3,4,6) ne, of False test_watcher]
  show ?thesis
    unfolding Let_def R using same diff k by (simp del: unstructured.simps)
qed

end
