(* ===== verification/Api_Server.thy ===== *)
theory Api_Server
  imports Watcher_Properties Wire_Format
begin

text \<open>
  The API server (\<open>src/internal/api/server.go\<close>): its one route, the resync handler, and the errors
  of \<open>Start\<close>. The server and the mux of \<open>net/http\<close> (Go 1.26, the version of \<open>go.mod\<close>) are modelled as far as the
  pattern \<open>POST /api/v1/resync\<close> uses them: the request target \<open>*\<close> never reaches the mux's handlers, a path that is
  not clean is redirected (unless the method is \<open>CONNECT\<close>), a path is matched segment by segment after its percent-encoding is undone, the
  pattern's path with another method is refused with 405, and any other path is not found. Requests that are not
  well formed HTTP do not get this far.
\<close>

section \<open>Paths\<close>

text \<open>\<open>path.Clean\<close> on a rooted path, segment by segment; the segments kept so far are on a stack.\<close>

fun clean_segments :: "string list \<Rightarrow> string list \<Rightarrow> string list" where
  "clean_segments [] st = rev st"
| "clean_segments (seg # segs) st =
     (if seg = [] \<or> seg = ''.'' then clean_segments segs st
      else if seg = ''..'' then clean_segments segs (tl st)
      else clean_segments segs (seg # st))"

definition cleanPath :: "string \<Rightarrow> string" where
  "cleanPath p =
     (if p = [] then ''/''
      else let p = (if hd p = CHR ''/'' then p else CHR ''/'' # p);
               np = CHR ''/'' # Join (clean_segments (Split p CHR ''/'') []) CHR ''/''
           in if last p = CHR ''/'' \<and> np \<noteq> ''/'' then np @ ''/'' else np)"

text \<open>\<open>url.PathUnescape\<close>, which fails on a percent sign that two hexadecimal digits do not follow, and the mux's use of
  it, which then takes the text as it is.\<close>

definition hex_value :: "char \<Rightarrow> nat option" where
  "hex_value c =
     (let n = (of_char c :: nat)
      in if 48 \<le> n \<and> n \<le> 57 then Some (n - 48)
         else if 65 \<le> n \<and> n \<le> 70 then Some (n - 55)
         else if 97 \<le> n \<and> n \<le> 102 then Some (n - 87)
         else None)"

fun PathUnescape :: "string \<Rightarrow> string option" where
  "PathUnescape [] = Some []"
| "PathUnescape (c # s) =
     (if c = CHR ''%'' then
        (case s of
           a # b # rest \<Rightarrow>
             (case (hex_value a, hex_value b) of
                (Some x, Some y) \<Rightarrow> map_option (Cons (char_of (16 * x + y))) (PathUnescape rest)
              | _ \<Rightarrow> None)
         | _ \<Rightarrow> None)
      else map_option (Cons c) (PathUnescape s))"

definition unescape :: "string \<Rightarrow> string" where
  "unescape seg = (case PathUnescape seg of None \<Rightarrow> seg | Some t \<Rightarrow> t)"

text \<open>The segments of a rooted path the mux compares.\<close>

definition path_segments :: "string \<Rightarrow> string list" where
  "path_segments p = (if p = [] then [] else map unescape (Split (tl p) CHR ''/''))"

section \<open>The server\<close>

text \<open>A request: its method, its target as it stands in the request line, and the path of its URL, still escaped.\<close>

record http_request =
  rq_method :: string
  rq_target :: string
  rq_path :: string

record http_response =
  rs_status :: int
  rs_contentType :: string
  rs_body :: "json option"

record resyncResponse =
  rr_Status :: string
  rr_Resources :: int
  rr_Message :: string

definition json_resyncResponse :: "resyncResponse \<Rightarrow> json" where
  "json_resyncResponse r =
     JObject [(''status'', JString (rr_Status r)), (''resources'', JNumber (rr_Resources r)),
              (''message'', JString (rr_Message r))]"

definition writeJSON :: "int \<Rightarrow> json \<Rightarrow> http_response" where
  "writeJSON status v = \<lparr>rs_status = status, rs_contentType = ''application/json'', rs_body = Some v\<rparr>"

text \<open>The handler, for a resyncer \<open>trigger\<close>: a function of its state that returns the count and the error,
  or \<open>None\<close> if it blocks.\<close>

definition handleResync ::
    "('s \<Rightarrow> ((nat \<times> string option) \<times> 's) option) \<Rightarrow> 's \<Rightarrow> (http_response \<times> 's) option" where
  "handleResync trigger s =
     (case trigger s of
        None \<Rightarrow> None
      | Some ((cnt, Some err), s') \<Rightarrow>
          Some (writeJSON 500 (json_resyncResponse
            \<lparr>rr_Status = ''error'', rr_Resources = 0, rr_Message = ''resync failed: '' @ err\<rparr>), s')
      | Some ((cnt, None), s') \<Rightarrow>
          Some (writeJSON 200 (json_resyncResponse
            \<lparr>rr_Status = ''ok'', rr_Resources = int cnt,
             rr_Message = ''resynced '' @ Itoa (int cnt) @ '' resources''\<rparr>), s'))"

record 'h Server =
  bindAddress :: string
  pattern_method :: string
  pattern_path :: string
  pattern_handler :: 'h

definition NewServer :: "string \<Rightarrow> ('s \<Rightarrow> ((nat \<times> string option) \<times> 's) option) \<Rightarrow>
    ('s \<Rightarrow> (http_response \<times> 's) option) Server" where
  "NewServer addr trigger =
     \<lparr>bindAddress = addr, pattern_method = ''POST'', pattern_path = ''/api/v1/resync'',
      pattern_handler = handleResync trigger\<rparr>"

definition plain_status :: "int \<Rightarrow> http_response" where
  "plain_status status = \<lparr>rs_status = status, rs_contentType = ''text/plain; charset=utf-8'', rs_body = None\<rparr>"

definition bare_status :: "int \<Rightarrow> http_response" where
  "bare_status status = \<lparr>rs_status = status, rs_contentType = [], rs_body = None\<rparr>"

text \<open>A redirect to the clean path; only the answer to a \<open>GET\<close> or \<open>HEAD\<close> has a content type.\<close>

definition redirect_status :: "string \<Rightarrow> http_response" where
  "redirect_status method =
     \<lparr>rs_status = 307,
      rs_contentType = (if method \<in> {''GET'', ''HEAD''} then ''text/html; charset=utf-8'' else []), rs_body = None\<rparr>"

definition ServeHTTP ::
    "('s \<Rightarrow> (http_response \<times> 's) option) Server \<Rightarrow> http_request \<Rightarrow> 's \<Rightarrow> (http_response \<times> 's) option" where
  "ServeHTTP srv rq s =
     (if rq_target rq = ''*'' then Some (bare_status (if rq_method rq = ''OPTIONS'' then 200 else 400), s)
      else if rq_method rq \<noteq> ''CONNECT'' \<and> rq_path rq \<noteq> cleanPath (rq_path rq)
      then Some (redirect_status (rq_method rq), s)
      else if path_segments (rq_path rq) \<noteq> path_segments (pattern_path srv) then Some (plain_status 404, s)
      else if rq_method rq \<noteq> pattern_method srv then Some (plain_status 405, s)
      else pattern_handler srv s)"

text \<open>\<open>Start\<close>: the error of \<open>net.Listen\<close>, and how \<open>Serve\<close> ended.\<close>

datatype serve_end = ServeNil | ErrServerClosed | ServeFailed string

definition Start_server :: "'h Server \<Rightarrow> string option \<Rightarrow> serve_end \<Rightarrow> string option" where
  "Start_server srv listenErr served =
     (case listenErr of
        Some err \<Rightarrow> Some (''listening on '' @ bindAddress srv @ '': '' @ err)
      | None \<Rightarrow>
          (case served of
             ServeFailed err \<Rightarrow> Some (''serving: '' @ err)
           | _ \<Rightarrow> None))"

section \<open>The resyncer interface\<close>

text \<open>What the handler relies on: a resync ends and reports no error. The watcher promises it.\<close>

locale resyncer =
  fixes trigger :: "'s \<Rightarrow> ((nat \<times> string option) \<times> 's) option"
    and reported :: "'s \<Rightarrow> nat"
  assumes trigger_ends: "\<exists>s'. trigger s = Some ((reported s, None), s')"
begin

lemma handler_ok:
  "\<exists>s'. trigger s = Some ((reported s, None), s') \<and>
     handleResync trigger s =
       Some (writeJSON 200 (json_resyncResponse
         \<lparr>rr_Status = ''ok'', rr_Resources = int (reported s),
          rr_Message = ''resynced '' @ Itoa (int (reported s)) @ '' resources''\<rparr>), s')"
  using trigger_ends [of s] by (auto simp: handleResync_def)

lemma serve_resync:
  assumes "rq_method rq = ''POST''" "rq_target rq \<noteq> ''*''" "cleanPath (rq_path rq) = rq_path rq"
    and "path_segments (rq_path rq) = path_segments ''/api/v1/resync''"
  shows "ServeHTTP (NewServer addr trigger) rq s = handleResync trigger s"
  using assms by (simp add: ServeHTTP_def NewServer_def)

end

lemma resync_ends:
  "\<exists>w'. TriggerResync lister others pick w =
     Some ((length (listed_objects lister (watchedGVRs w)), None), w')"
  using resync_items_total [of others pick "listed_objects lister (watchedGVRs w)" 0 w]
  by (auto simp: TriggerResync_def resync_gvrs_items)

interpretation watcher_resync: resyncer "TriggerResync lister others pick"
    "\<lambda>w. length (listed_objects lister (watchedGVRs w))" for lister others pick
  by unfold_locales (rule resync_ends)

section \<open>Properties\<close>

text \<open>However it is escaped, a path with these segments is clean.\<close>

lemma resync_segments [simp]: "path_segments ''/api/v1/resync'' = [''api'', ''v1'', ''resync'']"
  by (simp add: path_segments_def unescape_def)

lemma last_Join: "xs \<noteq> [] \<Longrightarrow> last xs \<noteq> [] \<Longrightarrow> last (Join xs c) = last (last xs) \<and> Join xs c \<noteq> []"
  by (induction xs c rule: Join.induct) auto

lemma Split_pieces: "seg \<in> set (Split s c) \<Longrightarrow> c \<notin> set seg"
  by (induction s arbitrary: seg) (auto split: if_splits list.splits)

lemma clean_segments_id: "\<forall>seg \<in> set segs. seg \<noteq> [] \<and> seg \<noteq> ''.'' \<and> seg \<noteq> ''..'' \<Longrightarrow> clean_segments segs st = rev st @ segs"
  by (induction segs arbitrary: st) auto

lemma clean_path:
  assumes "\<forall>seg \<in> set (Split q CHR ''/''). seg \<noteq> [] \<and> seg \<noteq> ''.'' \<and> seg \<noteq> ''..''"
  shows "cleanPath (CHR ''/'' # q) = CHR ''/'' # q"
proof -
  let ?segs = "Split q CHR ''/''"
  have lst: "last ?segs \<in> set ?segs" by simp
  with assms have "last ?segs \<noteq> []" by blast
  from last_Join [OF _ this, of "CHR ''/''"] have q: "q \<noteq> []" "last q = last (last ?segs)" by (simp_all add: Join_Split)
  have "CHR ''/'' \<notin> set (last ?segs)" using Split_pieces [OF lst] .
  then have "last q \<noteq> CHR ''/''" using q(2) \<open>last ?segs \<noteq> []\<close> last_in_set by metis
  then show ?thesis
    using q(1) clean_segments_id [OF assms, of "[]"] by (simp add: cleanPath_def Let_def Join_Split)
qed

lemma resync_path_clean:
  assumes "path_segments (CHR ''/'' # q) = [''api'', ''v1'', ''resync'']"
  shows "cleanPath (CHR ''/'' # q) = CHR ''/'' # q"
proof (rule clean_path, rule ballI)
  fix seg
  assume "seg \<in> set (Split q CHR ''/'')"
  then have "unescape seg \<in> set [''api'', ''v1'', ''resync'']"
    unfolding assms [symmetric] by (simp add: path_segments_def)
  then show "seg \<noteq> [] \<and> seg \<noteq> ''.'' \<and> seg \<noteq> ''..''" by (auto simp: unescape_def)
qed

text \<open>C22. The resync endpoint answers every request. A POST to \<open>/api/v1/resync\<close>, in whatever way its path is
  percent-encoded, runs exactly one resync of
  the watcher and answers 200 with a JSON body that reports the number of listed objects; the error branch of the handler
  is never taken, because the watcher's resync reports no error. Every other request leaves the watcher
  alone and gets no JSON: 404 or 405, a redirect (307) if its path is not clean, 400 for the target \<open>*\<close>, and 200 only for
  \<open>OPTIONS *\<close>.\<close>

theorem resync_endpoint:
  "\<exists>rsp w'. ServeHTTP (NewServer addr (TriggerResync lister others pick)) rq w = Some (rsp, w') \<and>
     (if rq_method rq = ''POST'' \<and> rq_target rq \<noteq> ''*'' \<and> prefix ''/'' (rq_path rq) \<and>
         path_segments (rq_path rq) = [''api'', ''v1'', ''resync'']
      then TriggerResync lister others pick w = Some ((length (listed_objects lister (watchedGVRs w)), None), w') \<and>
        rs_status rsp = 200 \<and> rs_contentType rsp = ''application/json'' \<and>
        (\<exists>n. n = int (length (listed_objects lister (watchedGVRs w))) \<and>
           rs_body rsp = Some (JObject [(''status'', JString ''ok''), (''resources'', JNumber n),
             (''message'', JString (''resynced '' @ Itoa n @ '' resources''))]))
      else w' = w \<and> rs_body rsp = None \<and>
        (if rq_target rq = ''*'' then rs_status rsp = (if rq_method rq = ''OPTIONS'' then 200 else 400)
         else rs_status rsp \<in> {307, 404, 405}))"
proof (cases "rq_method rq = ''POST'' \<and> rq_target rq \<noteq> ''*'' \<and> prefix ''/'' (rq_path rq) \<and>
    path_segments (rq_path rq) = [''api'', ''v1'', ''resync'']")
  case True
  then obtain q where q: "rq_path rq = CHR ''/'' # q" by (auto simp: prefix_def)
  have "cleanPath (rq_path rq) = rq_path rq" using True resync_path_clean [of q] unfolding q by blast
  with True have "ServeHTTP (NewServer addr (TriggerResync lister others pick)) rq w =
      handleResync (TriggerResync lister others pick) w"
    by (intro watcher_resync.serve_resync) simp_all
  with True show ?thesis
    using watcher_resync.handler_ok [of lister others pick w]
    by (auto simp: writeJSON_def json_resyncResponse_def)
next
  case False
  have "prefix ''/'' (cleanPath p)" for p by (auto simp: cleanPath_def Let_def)
  then have "prefix ''/'' (rq_path rq)" if "rq_path rq = cleanPath (rq_path rq)" using that by metis
  with False show ?thesis
    by (auto simp: ServeHTTP_def NewServer_def plain_status_def bare_status_def redirect_status_def)
qed

lemma escaped_resync_path:
  "path_segments ''/%61pi/v1/r%65sync'' = [''api'', ''v1'', ''resync'']"
  "path_segments ''/api%2Fv1/resync'' \<noteq> [''api'', ''v1'', ''resync'']"
  by code_simp+

text \<open>\<open>Start\<close> of the API server reports exactly the failures: it returns no error when the server was shut down or
  stopped serving normally, and wraps the error of the listener or of serving otherwise.\<close>

lemma server_start_errors:
  "(Start_server srv listenErr served = None \<longleftrightarrow> listenErr = None \<and> served \<in> {ServeNil, ErrServerClosed}) \<and>
   Start_server srv (Some e) served = Some (''listening on '' @ bindAddress srv @ '': '' @ e) \<and>
   Start_server srv None (ServeFailed e) = Some (''serving: '' @ e)"
  by (auto simp: Start_server_def split: option.splits serve_end.splits)

end
