(* ===== verification/Debounce_Lemmas.thy ===== *)
theory Debounce_Lemmas
  imports Debounce
begin

text \<open>
  What each critical section of the instance buffer does; the refinement rests on these facts alone.
\<close>

section \<open>Frames\<close>

lemma emitPayload_frame [simp]:
  "pending (emitPayload p d) = pending d" "timers (emitPayload p d) = timers d"
  "payloadsClosed (emitPayload p d) = payloadsClosed d" "maxBatchSize (emitPayload p d) = maxBatchSize d"
  "debounceWindow (emitPayload p d) = debounceWindow d"
  by (simp_all add: emitPayload_def)

lemma closePayloads_frame [simp]:
  "pending (closePayloads d) = pending d" "timers (closePayloads d) = timers d"
  "payloadsClosed (closePayloads d)" "debounceWindow (closePayloads d) = debounceWindow d"
  "maxBatchSize (closePayloads d) = maxBatchSize d"
  by (simp_all add: closePayloads_def)

lemma cancelPending_frame [simp]:
  "Payloads (cancelPending i d) = Payloads d" "maxBatchSize (cancelPending i d) = maxBatchSize d" "payloadsClosed (cancelPending i d) = payloadsClosed d"
  "tm_now (timers (cancelPending i d)) = tm_now (timers d)"
  "tm_next (timers (cancelPending i d)) = tm_next (timers d)"
  by (simp_all add: cancelPending_def split: option.splits)

lemma debounceUpsert_frame [simp]:
  "Payloads (debounceUpsert r d) = Payloads d" "maxBatchSize (debounceUpsert r d) = maxBatchSize d" "payloadsClosed (debounceUpsert r d) = payloadsClosed d"
  "tm_now (timers (debounceUpsert r d)) = tm_now (timers d)"
  "tm_next (timers (debounceUpsert r d)) = Suc (tm_next (timers d))"
  by (simp_all add: debounceUpsert_def Let_def split: option.splits)

lemma markReady_frame [simp]:
  "Payloads (markReady c d) = Payloads d" "maxBatchSize (markReady c d) = maxBatchSize d" "payloadsClosed (markReady c d) = payloadsClosed d"
  "timers (markReady c d) = timers d"
  by (simp_all add: markReady_def split: option.splits prod.splits)

section \<open>Effects on the pending map\<close>

lemma cancelPending_pending: "pending (cancelPending i d) = gm_del i (pending d)"
proof (cases "gm_get (pending d) i")
  case None
  then have "i \<notin> fst ` set (pending d)" by (simp add: gm_get_None_iff gm_keys_def)
  with None show ?thesis by (simp add: cancelPending_def gm_del_def)
qed (simp add: cancelPending_def)

definition next_gen :: "DebounceBuffer \<Rightarrow> string \<Rightarrow> 64 word" where
  "next_gen d i = (case gm_get (pending d) i of Some x \<Rightarrow> pc_gen x + 1 | None \<Rightarrow> 0)"

lemma debounceUpsert_pending:
  "pending (debounceUpsert r d) =
     gm_put (ri_ID r) \<lparr>pc_instance = r, pc_timer = tm_next (timers d), pc_ready = False,
                       pc_gen = next_gen d (ri_ID r)\<rparr> (pending d)"
  by (simp add: debounceUpsert_def next_gen_def Let_def split: option.splits)

lemma markReady_wf: "gm_wf (pending d) \<Longrightarrow> gm_wf (pending (markReady c d))"
  by (auto simp: markReady_def split: option.splits prod.splits)

definition is_ready :: "(string, pendingChange) gomap \<Rightarrow> string \<Rightarrow> bool" where
  "is_ready pend i \<longleftrightarrow> (case gm_get pend i of Some x \<Rightarrow> pc_ready x | None \<Rightarrow> False)"

definition inst_at :: "(string, pendingChange) gomap \<Rightarrow> string \<Rightarrow> ResourceInstance" where
  "inst_at pend i = pc_instance (the (gm_get pend i))"

lemma is_ready_del [simp]: "is_ready (gm_del j pend) i \<longleftrightarrow> i \<noteq> j \<and> is_ready pend i"
  by (auto simp: is_ready_def)

lemma inst_at_del: "i \<noteq> j \<Longrightarrow> inst_at (gm_del j pend) i = inst_at pend i"
  by (simp add: inst_at_def)

lemma collect_loop_spec:
  "distinct ord \<Longrightarrow>
   fst (collect_loop ord pend ups) = ups @ map (inst_at pend) (filter (is_ready pend) ord) \<and>
   gm_get (snd (collect_loop ord pend ups)) =
     (\<lambda>i. if i \<in> set ord \<and> is_ready pend i then None else gm_get pend i) \<and>
   (gm_wf pend \<longrightarrow> gm_wf (snd (collect_loop ord pend ups)))"
proof (induction ord pend ups rule: collect_loop.induct)
  case (1 pend ups)
  show ?case by simp
next
  case (2 i ord pend ups)
  show ?case
  proof (cases "is_ready pend i")
    case True
    then obtain x where x: "gm_get pend i = Some x" "pc_ready x"
      by (auto simp: is_ready_def split: option.splits)
    have "filter (is_ready (gm_del i pend)) ord = filter (is_ready pend) ord"
      using "2.prems" by (intro filter_cong) auto
    moreover have "map (inst_at (gm_del i pend)) (filter (is_ready pend) ord) =
        map (inst_at pend) (filter (is_ready pend) ord)"
      using "2.prems" by (intro map_cong inst_at_del) auto
    ultimately have ups: "map (inst_at (gm_del i pend)) (filter (is_ready (gm_del i pend)) ord) =
        map (inst_at pend) (filter (is_ready pend) ord)" by simp
    have e: "collect_loop (i # ord) pend ups = collect_loop ord (gm_del i pend) (ups @ [pc_instance x])"
      using x by simp
    have "distinct ord" "i \<notin> set ord" using "2.prems" by auto
    note IH = "2.IH"(2) [OF x this(1), unfolded ups]
    show ?thesis unfolding e
      using IH x True \<open>i \<notin> set ord\<close> by (auto simp: inst_at_def)
  next
    case False
    then have "collect_loop (i # ord) pend ups = collect_loop ord pend ups"
      by (simp add: is_ready_def split: option.splits)
    moreover have "distinct ord" using "2.prems" by simp
    ultimately show ?thesis using "2.IH"(1,3) False
      by (cases "gm_get pend i") (auto simp: fun_eq_iff is_ready_def)
  qed
qed

lemma collect_all_loop_spec:
  "distinct ord \<Longrightarrow> set ord \<subseteq> dom (gm_get pend) \<Longrightarrow>
   fst (collect_all_loop ord pend t ups) = ups @ map (inst_at pend) ord \<and>
   gm_get (fst (snd (collect_all_loop ord pend t ups))) =
     (\<lambda>i. if i \<in> set ord then None else gm_get pend i) \<and>
   tm_now (snd (snd (collect_all_loop ord pend t ups))) = tm_now t \<and>
   tm_next (snd (snd (collect_all_loop ord pend t ups))) = tm_next t \<and>
   set (tm_armed (snd (snd (collect_all_loop ord pend t ups)))) \<subseteq> set (tm_armed t)"
proof (induction ord pend t ups rule: collect_all_loop.induct)
  case (1 pend t ups)
  show ?case by simp
next
  case (2 i ord pend t ups)
  then obtain x where x: "gm_get pend i = Some x" by auto
  have "map (inst_at (gm_del i pend)) ord = map (inst_at pend) ord"
    using "2.prems" by (intro map_cong inst_at_del) auto
  moreover have "set ord \<subseteq> dom (gm_get (gm_del i pend))"
    using "2.prems" by (auto simp: gm_get_del_fun)
  ultimately have IH: "fst (collect_all_loop ord (gm_del i pend) (Stop_timer (pc_timer x) t) (ups @ [pc_instance x])) =
      (ups @ [pc_instance x]) @ map (inst_at pend) ord"
    and IH': "gm_get (fst (snd (collect_all_loop ord (gm_del i pend) (Stop_timer (pc_timer x) t) (ups @ [pc_instance x])))) =
      (\<lambda>j. if j \<in> set ord then None else gm_get (gm_del i pend) j)"
    and IH'': "tm_now (snd (snd (collect_all_loop ord (gm_del i pend) (Stop_timer (pc_timer x) t) (ups @ [pc_instance x])))) = tm_now t"
      "tm_next (snd (snd (collect_all_loop ord (gm_del i pend) (Stop_timer (pc_timer x) t) (ups @ [pc_instance x])))) = tm_next t"
      "set (tm_armed (snd (snd (collect_all_loop ord (gm_del i pend) (Stop_timer (pc_timer x) t) (ups @ [pc_instance x])))))
         \<subseteq> set (tm_armed (Stop_timer (pc_timer x) t))"
    using "2.IH"(2) [OF x] "2.prems" by (simp_all del: gm_get_del)
  have e: "collect_all_loop (i # ord) pend t ups =
      collect_all_loop ord (gm_del i pend) (Stop_timer (pc_timer x) t) (ups @ [pc_instance x])"
    using x by simp
  show ?case unfolding e IH IH' IH''(1,2)
    using IH''(3) x by (auto simp: inst_at_def fun_eq_iff)
qed

section \<open>Collecting\<close>

lemma collectReady_spec:
  assumes "range_order ord (pending d)" "gm_wf (pending d)" "collectReady ord d = (ups, d')"
  shows "ups = map (inst_at (pending d)) (filter (is_ready (pending d)) ord)"
    and "gm_get (pending d') = (\<lambda>i. if is_ready (pending d) i then None else gm_get (pending d) i)"
    and "gm_wf (pending d')"
    and "d' = d\<lparr>pending := pending d'\<rparr>"
proof -
  have dist: "distinct ord" using assms range_order_distinct by blast
  have "is_ready (pending d) i \<Longrightarrow> i \<in> set ord" for i
    using range_order_set [OF assms(1)] by (auto simp: is_ready_def split: option.splits)
  moreover have "pending d = [] \<Longrightarrow> ord = []"
    using range_order_length [OF assms(1)] by simp
  ultimately show "ups = map (inst_at (pending d)) (filter (is_ready (pending d)) ord)"
    "gm_get (pending d') = (\<lambda>i. if is_ready (pending d) i then None else gm_get (pending d) i)"
    "gm_wf (pending d')" "d' = d\<lparr>pending := pending d'\<rparr>"
    using assms(2,3) collect_loop_spec [OF dist, of "pending d" "[]"]
    by (auto simp: collectReady_def fun_eq_iff split: if_splits prod.splits)
qed

lemma collectAll_spec:
  assumes "range_order ord (pending d)" "gm_wf (pending d)" "collectAll ord d = (ups, d')"
  shows "ups = map (inst_at (pending d)) ord"
    and "pending d' = []"
    and "d' = d\<lparr>pending := [], timers := timers d'\<rparr>"
    and "tm_now (timers d') = tm_now (timers d)" "tm_next (timers d') = tm_next (timers d)"
    and "set (tm_armed (timers d')) \<subseteq> set (tm_armed (timers d))"
proof -
  have dist: "distinct ord" using assms range_order_distinct by blast
  have dom: "set ord = dom (gm_get (pending d))" using range_order_set [OF assms(1)] .
  note spec = collect_all_loop_spec [OF dist, of "pending d" "timers d" "[]"]
  have "(\<lambda>i. if i \<in> set ord then None else gm_get (pending d) i) = Map.empty"
    using dom by (auto simp: fun_eq_iff)
  then have pend: "pending d' = []"
    using assms(3) spec dom
    by (auto simp: collectAll_def gm_empty_iff split: if_splits prod.splits)
  moreover have "pending d = [] \<Longrightarrow> ord = []" using range_order_length [OF assms(1)] by simp
  ultimately show "ups = map (inst_at (pending d)) ord" "pending d' = []"
    "d' = d\<lparr>pending := [], timers := timers d'\<rparr>"
    "tm_now (timers d') = tm_now (timers d)" "tm_next (timers d') = tm_next (timers d)"
    "set (tm_armed (timers d')) \<subseteq> set (tm_armed (timers d))"
    using assms(3) spec dom
    by (auto simp: collectAll_def split: if_splits prod.splits)
qed

lemma collect_frame:
  "collectReady ord d = (ups, d') \<Longrightarrow>
     Payloads d' = Payloads d \<and> payloadsClosed d' = payloadsClosed d \<and> maxBatchSize d' = maxBatchSize d \<and> timers d' = timers d"
  "collectAll ord d = (ups, d') \<Longrightarrow>
     Payloads d' = Payloads d \<and> payloadsClosed d' = payloadsClosed d \<and> maxBatchSize d' = maxBatchSize d"
  by (auto simp: collectReady_def collectAll_def split: if_splits prod.splits)

lemma ready_loop_eq: "ready_loop m n = n + length (filter (\<lambda>(_, x). pc_ready x) m)"
  by (induction m n rule: ready_loop.induct) auto

lemma readyCount_eq: "readyCount d = length (filter (\<lambda>(_, x). pc_ready x) (pending d))"
  by (simp add: readyCount_def ready_loop_eq)

end
