(* ===== verification/Buffer_Spec.thy ===== *)
theory Buffer_Spec
  imports Go_Runtime "HOL-Library.Word"
begin

text \<open>
  The specification both debounce buffers implement: a buffer that keeps one entry per key, each
  with a timer of its own, and that a \<open>Run\<close> goroutine, any number of timer goroutines, the clock and a
  consumer share. Values are anything with a key: instances with their ID, definitions with their name.

  The specification leaves open what the two buffers do differently (how generations are chosen, how
  long a timer runs) and forgets what does not matter: maps are functions, the goroutines and the
  armed timers are multisets, the order of a range over the map is any order.
\<close>

section \<open>States\<close>

record 'v entry =
  en_value :: 'v
  en_timer :: nat
  en_ready :: bool
  en_gen :: "64 word"

type_synonym 'v entries = "string \<Rightarrow> 'v entry option"

datatype 'v change = Put 'v | Del string

datatype 'v run_state =
    Selecting
  | EmitDelete string
  | EmitBatch "'v list"
  | FlushAll
  | EmitFinal "'v list"
  | Closing
  | Returned

datatype 'v goroutine =
    Fired "string \<times> 64 word"
  | Marked
  | Flushing
  | Emitting "'v list"

text \<open>A payload is its upserts and its deletes; the log lists the received changes with their times.\<close>

type_synonym 'v payload = "'v list \<times> string list"

record 'v bstate =
  bs_entries :: "'v entries"
  bs_now :: int
  bs_armed :: "(nat \<times> (string \<times> 64 word) \<times> int) multiset"
  bs_next :: nat
  bs_max :: int
  bs_chan :: "'v payload chan"
  bs_closed :: bool
  bs_run :: "'v run_state"
  bs_goroutines :: "'v goroutine multiset"
  bs_log :: "(int \<times> 'v change) list"

section \<open>Moves\<close>

definition ready_keys :: "'v entries \<Rightarrow> string set" where
  "ready_keys E = {k. \<exists>x. E k = Some x \<and> en_ready x}"

text \<open>A batch lists the values of the entries of a set of keys, in some order.\<close>

definition batch_of :: "'v entries \<Rightarrow> string set \<Rightarrow> 'v list \<Rightarrow> bool" where
  "batch_of E K ups \<longleftrightarrow> (\<exists>ks. distinct ks \<and> set ks = K \<and> ups = map (\<lambda>k. en_value (the (E k))) ks)"

definition stop_timers :: "'v entries \<Rightarrow> string set \<Rightarrow> (nat \<times> 'c) multiset \<Rightarrow> (nat \<times> 'c) multiset" where
  "stop_timers E K A = filter_mset (\<lambda>c. \<forall>k \<in> K. \<forall>x. E k = Some x \<longrightarrow> fst c \<noteq> en_timer x) A"

definition mark :: "string \<times> 64 word \<Rightarrow> 'v entries \<Rightarrow> 'v entries" where
  "mark c E = (case c of (k, g) \<Rightarrow>
     (case E k of Some x \<Rightarrow> if en_gen x = g then E(k \<mapsto> x\<lparr>en_ready := True\<rparr>) else E | None \<Rightarrow> E))"

definition offer :: "'v payload \<Rightarrow> 'v bstate \<Rightarrow> 'v bstate" where
  "offer p s = (if bs_closed s then s else s\<lparr>bs_chan := chan_send_nb p (bs_chan s)\<rparr>)"

definition close_chan :: "'v bstate \<Rightarrow> 'v bstate" where
  "close_chan s = (if bs_closed s then s else s\<lparr>bs_closed := True, bs_chan := chan_close (bs_chan s)\<rparr>)"

fun emission :: "'v run_state \<Rightarrow> ('v payload \<times> 'v run_state) option" where
  "emission (EmitDelete k) = Some (([], [k]), Selecting)"
| "emission (EmitBatch ups) = Some ((ups, []), Selecting)"
| "emission (EmitFinal ups) = Some ((ups, []), Closing)"
| "emission _ = None"

text \<open>The moves, labelled by the change that is received, if any. \<open>key\<close> gives the key of a value.\<close>

inductive bmove :: "('v \<Rightarrow> string) \<Rightarrow> 'v change option \<Rightarrow> 'v bstate \<Rightarrow> 'v bstate \<Rightarrow> bool"
  for key :: "'v \<Rightarrow> string" where
  bm_put: "bs_run s = Selecting \<Longrightarrow>
     bmove key (Some (Put v)) s
       (s\<lparr>bs_log := bs_log s @ [(bs_now s, Put v)],
          bs_entries := (bs_entries s)(key v \<mapsto> \<lparr>en_value = v, en_timer = bs_next s, en_ready = False, en_gen = g\<rparr>),
          bs_armed := add_mset (bs_next s, (key v, g), w) (stop_timers (bs_entries s) {key v} (bs_armed s)),
          bs_next := Suc (bs_next s)\<rparr>)"
| bm_del: "bs_run s = Selecting \<Longrightarrow>
     bmove key (Some (Del k)) s
       (s\<lparr>bs_log := bs_log s @ [(bs_now s, Del k)],
          bs_entries := (bs_entries s)(k := None),
          bs_armed := stop_timers (bs_entries s) {k} (bs_armed s), bs_run := EmitDelete k\<rparr>)"
| bm_run_collect: "bs_run s = Selecting \<Longrightarrow> batch_of (bs_entries s) (ready_keys (bs_entries s)) ups \<Longrightarrow>
     bmove key None s
       (s\<lparr>bs_entries := bs_entries s |` (- ready_keys (bs_entries s)),
          bs_run := (if ups = [] then Selecting else EmitBatch ups)\<rparr>)"
| bm_collect_all: "bs_run s = FlushAll \<Longrightarrow> batch_of (bs_entries s) (dom (bs_entries s)) ups \<Longrightarrow>
     bmove key None s
       (s\<lparr>bs_entries := Map.empty,
          bs_armed := stop_timers (bs_entries s) (dom (bs_entries s)) (bs_armed s),
          bs_run := (if ups = [] then Closing else EmitFinal ups)\<rparr>)"
| bm_run_emit: "emission (bs_run s) = Some (p, r) \<Longrightarrow> bmove key None s ((offer p s)\<lparr>bs_run := r\<rparr>)"
| bm_shutdown: "bs_run s = Selecting \<Longrightarrow> bmove key None s (s\<lparr>bs_run := FlushAll\<rparr>)"
| bm_close: "bs_run s = Closing \<Longrightarrow> bmove key None s ((close_chan s)\<lparr>bs_run := Returned\<rparr>)"
| bm_expire: "(h, c, w) \<in># bs_armed s \<Longrightarrow> w \<le> bs_now s \<Longrightarrow>
     bmove key None s (s\<lparr>bs_armed := bs_armed s - {#(h, c, w)#}, bs_goroutines := add_mset (Fired c) (bs_goroutines s)\<rparr>)"
| bm_mark: "Fired c \<in># bs_goroutines s \<Longrightarrow>
     bmove key None s
       (s\<lparr>bs_entries := mark c (bs_entries s), bs_goroutines := add_mset Marked (bs_goroutines s - {#Fired c#})\<rparr>)"
| bm_check: "Marked \<in># bs_goroutines s \<Longrightarrow>
     bmove key None s
       (s\<lparr>bs_goroutines := bs_goroutines s - {#Marked#} +
            (if bs_max s \<le> int (card (ready_keys (bs_entries s))) then {#Flushing#} else {#})\<rparr>)"
| bm_timer_collect: "Flushing \<in># bs_goroutines s \<Longrightarrow> batch_of (bs_entries s) (ready_keys (bs_entries s)) ups \<Longrightarrow>
     bmove key None s
       (s\<lparr>bs_entries := bs_entries s |` (- ready_keys (bs_entries s)),
          bs_goroutines := bs_goroutines s - {#Flushing#} + (if ups = [] then {#} else {#Emitting ups#})\<rparr>)"
| bm_timer_emit: "Emitting ups \<in># bs_goroutines s \<Longrightarrow>
     bmove key None s ((offer (ups, []) s)\<lparr>bs_goroutines := bs_goroutines s - {#Emitting ups#}\<rparr>)"
| bm_time: "bmove key None s (s\<lparr>bs_now := bs_now s + int dt\<rparr>)"
| bm_recv: "ch_buf (bs_chan s) = p # ps \<Longrightarrow> bmove key None s (s\<lparr>bs_chan := (bs_chan s)\<lparr>ch_buf := ps\<rparr>\<rparr>)"

text \<open>To show a move to a state given in another form.\<close>

lemma bmove_to: "bmove key c s u \<Longrightarrow> u = s' \<Longrightarrow> bmove key c s s'"
  by simp

inductive_cases bmove_changeE: "bmove key (Some c) s s'"

section \<open>Lemmas on the operations\<close>

lemma offer_frame [simp]:
  "bs_entries (offer p s) = bs_entries s" "bs_armed (offer p s) = bs_armed s" "bs_next (offer p s) = bs_next s"
  "bs_closed (offer p s) = bs_closed s" "bs_run (offer p s) = bs_run s" "bs_log (offer p s) = bs_log s"
  "bs_goroutines (offer p s) = bs_goroutines s" "bs_now (offer p s) = bs_now s" "bs_max (offer p s) = bs_max s"
  by (simp_all add: offer_def)

lemma close_chan_frame [simp]:
  "bs_entries (close_chan s) = bs_entries s" "bs_armed (close_chan s) = bs_armed s"
  "bs_next (close_chan s) = bs_next s" "bs_closed (close_chan s)" "bs_log (close_chan s) = bs_log s"
  "bs_goroutines (close_chan s) = bs_goroutines s" "bs_now (close_chan s) = bs_now s"
  by (simp_all add: close_chan_def)

lemma in_stop_timers:
  "(h, c) \<in># stop_timers E K A \<longleftrightarrow> (h, c) \<in># A \<and> (\<forall>k \<in> K. \<forall>x. E k = Some x \<longrightarrow> h \<noteq> en_timer x)"
  by (simp add: stop_timers_def)

lemma stop_timers_none [simp]: "stop_timers E {} A = A" "stop_timers Map.empty K A = A"
  by (simp_all add: stop_timers_def)

lemma mark_get:
  "mark (k, g) E j =
     (case E j of Some x \<Rightarrow> Some (if j = k \<and> en_gen x = g then x\<lparr>en_ready := True\<rparr> else x) | None \<Rightarrow> None)"
  by (auto simp: mark_def split: option.splits)

lemma dom_mark [simp]: "dom (mark c E) = dom E"
  by (cases c) (auto simp: mark_def split: option.splits)

lemma mark_value [simp]: "map_option en_value (mark c E k) = map_option en_value (E k)"
  by (cases c) (auto simp: mark_def split: option.splits)

lemma mark_empty_iff [simp]: "mark c E = Map.empty \<longleftrightarrow> E = Map.empty"
  by (metis dom_mark dom_eq_empty_conv)

lemma mark_SomeE:
  assumes "mark c E k = Some x"
  obtains y where "E k = Some y" "en_value x = en_value y" "en_timer x = en_timer y" "en_gen x = en_gen y"
    "\<not> en_ready x \<Longrightarrow> x = y \<and> c \<noteq> (k, en_gen y)"
  using assms by (cases c) (auto simp: mark_get split: option.splits if_splits)

text \<open>The entry that survives a collect is not ready, the one that does not is in the batch.\<close>

lemma kept_entry: "(E |` (- ready_keys E)) k = Some x \<longleftrightarrow> E k = Some x \<and> \<not> en_ready x"
  by (auto simp: ready_keys_def restrict_map_def)

lemma batch_values:
  assumes "batch_of E K ups" "K \<subseteq> dom E"
  shows "set ups = {en_value x | k x. k \<in> K \<and> E k = Some x}"
  using assms by (force simp: batch_of_def subset_iff)

lemma batch_exists: "finite K \<Longrightarrow> \<exists>ups. batch_of E K ups"
  using finite_distinct_list [of K] by (auto simp: batch_of_def)

lemma ready_keys_dom: "ready_keys E \<subseteq> dom E"
  by (auto simp: ready_keys_def)

lemmas batch_ready = batch_values [OF _ ready_keys_dom]

lemma in_batch:
  "batch_of E (ready_keys E) ups \<Longrightarrow> E k = Some x \<Longrightarrow> en_ready x \<Longrightarrow> en_value x \<in> set ups"
  "batch_of E (dom E) ups \<Longrightarrow> E k = Some x \<Longrightarrow> en_value x \<in> set ups"
  by (force simp: batch_ready ready_keys_def, force simp: batch_values [OF _ subset_refl])

lemma collected_left:
  assumes "batch_of E (ready_keys E) ups" "E k = Some x" "k \<notin> dom (E |` (- ready_keys E))"
  shows "en_value x \<in> set ups"
proof -
  have "en_ready x" using assms(2,3) kept_entry [of E k x] by auto
  then show ?thesis using in_batch(1) [OF assms(1,2)] by blast
qed

lemma batch_pending:
  "batch_of E (ready_keys E) ups \<Longrightarrow> set ups \<subseteq> {en_value x | k x. E k = Some x}"
  "batch_of E (dom E) ups \<Longrightarrow> set ups \<subseteq> {en_value x | k x. E k = Some x}"
  using batch_ready [of E ups] batch_values [of E "dom E" ups] by auto

end
