(* ===== verification/Buffer_Invariants.thy ===== *)
theory Buffer_Invariants
  imports Buffer_Spec
begin

text \<open>
  The invariants of the specification, each shown once for both buffers: the payload channel is never misused, the
  entries are stored under their keys, every entry that is not ready has a timer on its way, an entry holds the
  value of the latest change of its key, batches are well formed, and no value vanishes before shutdown.
\<close>

section \<open>The invariant rule\<close>

locale buffer_invariant =
  fixes key :: "'v \<Rightarrow> string" and Inv :: "'v bstate \<Rightarrow> bool"
  assumes move_keeps: "Inv s \<Longrightarrow> bmove key c s s' \<Longrightarrow> Inv s'"

section \<open>The payload channel\<close>

interpretation bsink: payload_sink offer close_chan bs_chan bs_closed
  by unfold_locales (auto simp: offer_def close_chan_def)

definition chan_inv :: "'v bstate \<Rightarrow> bool" where
  "chan_inv s \<longleftrightarrow> bsink.sink_ok s \<and> (bs_closed s \<longleftrightarrow> bs_run s = Returned) \<and> 0 < ch_cap (bs_chan s)"

lemma offer_cap [simp]: "ch_cap (bs_chan (offer p s)) = ch_cap (bs_chan s)"
  by (simp add: offer_def)

lemma close_cap [simp]: "ch_cap (bs_chan (close_chan s)) = ch_cap (bs_chan s)"
  by (simp add: close_chan_def chan_close_def)

lemma sink_ok_update [simp]:
  "bsink.sink_ok (s\<lparr>bs_run := r\<rparr>) = bsink.sink_ok s" "bsink.sink_ok (s\<lparr>bs_goroutines := G\<rparr>) = bsink.sink_ok s"
  by (simp_all add: bsink.sink_ok_def)

lemma emission_running: "emission r = Some (p, r') \<Longrightarrow> r \<noteq> Returned \<and> r' \<noteq> Returned"
  by (cases r) auto

lemma chan_inv_move: "bmove key c s s' \<Longrightarrow> chan_inv s \<Longrightarrow> chan_inv s'"
proof (induction rule: bmove.induct)
  case (bm_run_emit s p r)
  then show ?case by (auto simp: chan_inv_def bsink.emit_keeps_ok dest: emission_running)
next
  case (bm_timer_emit ups s)
  then show ?case by (simp add: chan_inv_def bsink.emit_keeps_ok)
next
  case (bm_close s)
  then show ?case by (simp add: chan_inv_def bsink.close_keeps_ok)
next
  case (bm_recv s p ps)
  then show ?case by (auto simp: chan_inv_def bsink.sink_ok_def chan_ok_def suffix_def)
qed (auto simp: chan_inv_def bsink.sink_ok_def)

section \<open>The entries\<close>

lemma in_removed: "a \<in># M \<Longrightarrow> a \<noteq> b \<Longrightarrow> a \<in># M - {#b#}"
  by (simp add: in_diff_count)

text \<open>An entry that is not ready has its own timer armed, or that timer has expired and its goroutine has not yet
  marked the entry: no wake-up is lost.\<close>

definition awaits :: "'v bstate \<Rightarrow> string \<Rightarrow> 'v entry \<Rightarrow> bool" where
  "awaits s k x \<longleftrightarrow>
     (\<exists>w. (en_timer x, (k, en_gen x), w) \<in># bs_armed s) \<or> Fired (k, en_gen x) \<in># bs_goroutines s"

definition entry_inv :: "('v \<Rightarrow> string) \<Rightarrow> 'v bstate \<Rightarrow> bool" where
  "entry_inv key s \<longleftrightarrow> finite (dom (bs_entries s)) \<and>
     (\<forall>k x. bs_entries s k = Some x \<longrightarrow>
        key (en_value x) = k \<and> en_timer x < bs_next s \<and> (\<not> en_ready x \<longrightarrow> awaits s k x)) \<and>
     (\<forall>i j x y. bs_entries s i = Some x \<longrightarrow> bs_entries s j = Some y \<longrightarrow> en_timer x = en_timer y \<longrightarrow> i = j)"

lemma entry_invD:
  assumes "entry_inv key s" "bs_entries s k = Some x"
  shows "key (en_value x) = k" "en_timer x < bs_next s" "\<not> en_ready x \<Longrightarrow> awaits s k x"
    "bs_entries s j = Some y \<Longrightarrow> en_timer x = en_timer y \<Longrightarrow> k = j"
  using assms unfolding entry_inv_def by blast+

text \<open>A move whose entries come from earlier entries keeps the invariant if it keeps what they await.\<close>

lemma entry_inv_sim:
  assumes "entry_inv key s" "bs_next s' = bs_next s" "dom (bs_entries s') \<subseteq> dom (bs_entries s)"
    and sim: "\<And>k x. bs_entries s' k = Some x \<Longrightarrow>
      \<exists>y. bs_entries s k = Some y \<and> en_timer x = en_timer y \<and> en_value x = en_value y \<and>
        (\<not> en_ready x \<longrightarrow> x = y \<and> (awaits s k y \<longrightarrow> awaits s' k y))"
  shows "entry_inv key s'"
  unfolding entry_inv_def
proof (intro conjI allI impI)
  show "finite (dom (bs_entries s'))" using assms(1,3) by (auto simp: entry_inv_def intro: finite_subset)
next
  fix k x
  assume "bs_entries s' k = Some x"
  from sim [OF this] obtain y where y: "bs_entries s k = Some y" "en_timer x = en_timer y" "en_value x = en_value y"
    "\<not> en_ready x \<longrightarrow> x = y \<and> (awaits s k y \<longrightarrow> awaits s' k y)" by blast
  note D = entry_invD [OF assms(1) y(1)]
  show "key (en_value x) = k" "en_timer x < bs_next s'" using D(1,2) y(2,3) assms(2) by simp_all
  show "awaits s' k x" if "\<not> en_ready x" using D(3) y(4) that by blast
next
  fix i j x y
  assume ij: "bs_entries s' i = Some x" "bs_entries s' j = Some y" "en_timer x = en_timer y"
  obtain u v where "bs_entries s i = Some u" "en_timer x = en_timer u" "bs_entries s j = Some v" "en_timer y = en_timer v"
    using sim [OF ij(1)] sim [OF ij(2)] by blast
  then show "i = j" using entry_invD(4) [OF assms(1), of i u j v] ij(3) by simp
qed

lemma entry_inv_kept:
  assumes "entry_inv key s" "bs_next s' = bs_next s"
    and "\<And>k x. bs_entries s' k = Some x \<Longrightarrow> bs_entries s k = Some x \<and> (awaits s k x \<longrightarrow> awaits s' k x)"
  shows "entry_inv key s'"
  using assms(3) by (intro entry_inv_sim [OF assms(1,2)]) blast+

lemma entry_inv_put:
  assumes "entry_inv key s"
    and s': "s' = s\<lparr>bs_log := l,
      bs_entries := (bs_entries s)(key v \<mapsto> \<lparr>en_value = v, en_timer = bs_next s, en_ready = False, en_gen = g\<rparr>),
      bs_armed := add_mset (bs_next s, (key v, g), w) (stop_timers (bs_entries s) {key v} (bs_armed s)),
      bs_next := Suc (bs_next s)\<rparr>"
  shows "entry_inv key s'"
  unfolding entry_inv_def
proof (intro conjI allI impI)
  show "finite (dom (bs_entries s'))" using assms(1) by (simp add: s' entry_inv_def)
next
  fix k x
  assume x: "bs_entries s' k = Some x"
  show "key (en_value x) = k" "en_timer x < bs_next s'"
    using x entry_invD(1,2) [OF assms(1)] by (auto simp: s' less_Suc_eq split: if_splits)
  show "awaits s' k x" if "\<not> en_ready x"
    using x that entry_invD(3,4) [OF assms(1)] by (auto simp: s' awaits_def in_stop_timers split: if_splits)
next
  fix i j x y
  assume "bs_entries s' i = Some x" "bs_entries s' j = Some y" "en_timer x = en_timer y"
  then show "i = j"
    using entry_invD(2,4) [OF assms(1)] by (auto simp: s' split: if_splits) (metis less_irrefl)+
qed

lemma entry_inv_move: "bmove key c s s' \<Longrightarrow> entry_inv key s \<Longrightarrow> entry_inv key s'"
proof (induction rule: bmove.induct)
  case (bm_put s v g w)
  then show ?case by (intro entry_inv_put [OF _ refl])
next
  case (bm_del s k)
  show ?case
    by (rule entry_inv_kept [OF bm_del.prems])
      (use entry_invD(4) [OF bm_del.prems] in \<open>auto simp: awaits_def in_stop_timers split: if_splits\<close>)
next
  case (bm_collect_all s ups)
  then show ?case by (simp add: entry_inv_def)
next
  case (bm_mark c s)
  show ?case
  proof (rule entry_inv_sim [OF bm_mark.prems])
    fix k x
    assume "bs_entries (s\<lparr>bs_entries := mark c (bs_entries s),
      bs_goroutines := add_mset Marked (bs_goroutines s - {#Fired c#})\<rparr>) k = Some x"
    then have "mark c (bs_entries s) k = Some x" by simp
    then obtain y where y: "bs_entries s k = Some y" "en_value x = en_value y" "en_timer x = en_timer y"
      "\<not> en_ready x \<Longrightarrow> x = y \<and> c \<noteq> (k, en_gen y)" by (rule mark_SomeE) blast
    moreover have "awaits s k y \<longrightarrow> awaits (s\<lparr>bs_entries := mark c (bs_entries s),
        bs_goroutines := add_mset Marked (bs_goroutines s - {#Fired c#})\<rparr>) k y" if "c \<noteq> (k, en_gen y)"
      using that by (auto simp: awaits_def intro: in_removed)
    ultimately show "\<exists>y. bs_entries s k = Some y \<and> en_timer x = en_timer y \<and> en_value x = en_value y \<and>
        (\<not> en_ready x \<longrightarrow> x = y \<and> (awaits s k y \<longrightarrow> awaits (s\<lparr>bs_entries := mark c (bs_entries s),
          bs_goroutines := add_mset Marked (bs_goroutines s - {#Fired c#})\<rparr>) k y))"
      by metis
  qed simp_all
next
  case (bm_expire h c w s)
  show ?case
    by (rule entry_inv_kept [OF bm_expire.prems]) (auto simp: awaits_def intro: in_removed)
qed (erule entry_inv_kept; force simp: awaits_def kept_entry intro: in_removed)+

section \<open>Last state wins\<close>

fun change_key :: "('v \<Rightarrow> string) \<Rightarrow> 'v change \<Rightarrow> string" where
  "change_key key (Put v) = key v"
| "change_key key (Del k) = k"

definition last_change :: "('v \<Rightarrow> string) \<Rightarrow> (int \<times> 'v change) list \<Rightarrow> string \<Rightarrow> (int \<times> 'v change) option" where
  "last_change key l k = find (\<lambda>(t, c). change_key key c = k) (rev l)"

lemma last_change_Nil [simp]: "last_change key [] k = None"
  by (simp add: last_change_def)

lemma last_change_snoc [simp]:
  "last_change key (l @ [(t, c)]) k = (if change_key key c = k then Some (t, c) else last_change key l k)"
  by (simp add: last_change_def)

definition latest_inv :: "('v \<Rightarrow> string) \<Rightarrow> 'v bstate \<Rightarrow> bool" where
  "latest_inv key s \<longleftrightarrow>
     (\<forall>k x. bs_entries s k = Some x \<longrightarrow> (\<exists>t. last_change key (bs_log s) k = Some (t, Put (en_value x))))"

lemma latest_inv_move: "bmove key c s s' \<Longrightarrow> latest_inv key s \<Longrightarrow> latest_inv key s'"
proof (induction rule: bmove.induct)
  case (bm_mark c s)
  show ?case
    unfolding latest_inv_def
  proof (intro allI impI)
    fix k x
    assume "bs_entries (s\<lparr>bs_entries := mark c (bs_entries s),
      bs_goroutines := add_mset Marked (bs_goroutines s - {#Fired c#})\<rparr>) k = Some x"
    then have "mark c (bs_entries s) k = Some x" by simp
    then show "\<exists>t. last_change key (bs_log (s\<lparr>bs_entries := mark c (bs_entries s),
        bs_goroutines := add_mset Marked (bs_goroutines s - {#Fired c#})\<rparr>)) k = Some (t, Put (en_value x))"
      using bm_mark.prems by (elim mark_SomeE) (auto simp: latest_inv_def)
  qed
qed (auto simp: latest_inv_def kept_entry)

section \<open>Batches\<close>

text \<open>The batches collected under the lock and not yet emitted, and the payloads offered to the channel.\<close>

definition bs_in_flight :: "'v bstate \<Rightarrow> 'v list set" where
  "bs_in_flight s = {ups. bs_run s = EmitBatch ups \<or> bs_run s = EmitFinal ups \<or> Emitting ups \<in># bs_goroutines s}"

definition bs_offered :: "'v bstate \<Rightarrow> 'v payload set" where
  "bs_offered s = set (ch_sent (bs_chan s)) \<union> set (ch_dropped (bs_chan s))"

definition batch_ok :: "('v \<Rightarrow> string) \<Rightarrow> 'v list \<Rightarrow> bool" where
  "batch_ok key ups \<longleftrightarrow> ups \<noteq> [] \<and> distinct (map key ups)"

definition payload_ok :: "('v \<Rightarrow> string) \<Rightarrow> 'v payload \<Rightarrow> bool" where
  "payload_ok key p \<longleftrightarrow> (\<exists>k. p = ([], [k])) \<or> (\<exists>ups. p = (ups, []) \<and> batch_ok key ups)"

definition batch_inv :: "('v \<Rightarrow> string) \<Rightarrow> 'v bstate \<Rightarrow> bool" where
  "batch_inv key s \<longleftrightarrow> (\<forall>ups \<in> bs_in_flight s. batch_ok key ups) \<and> (\<forall>p \<in> bs_offered s. payload_ok key p)"

lemma batch_distinct:
  assumes "entry_inv key s" "batch_of (bs_entries s) K ups" "K \<subseteq> dom (bs_entries s)"
  shows "distinct (map key ups)"
proof -
  obtain ks where ks: "distinct ks" "set ks = K" "ups = map (\<lambda>k. en_value (the (bs_entries s k))) ks"
    using assms(2) by (auto simp: batch_of_def)
  have "map key ups = map (\<lambda>k. k) ks"
    unfolding ks(3) map_map
    by (rule map_cong [OF refl]) (use ks(2) assms(3) entry_invD(1) [OF assms(1)] in force)
  with ks(1) show ?thesis by simp
qed

lemma offered_offer: "bs_offered (offer p s) \<subseteq> insert p (bs_offered s)"
  by (auto simp: bs_offered_def offer_def chan_send_nb_def)

lemma emission_batch_ok:
  "emission (bs_run s) = Some (p, r) \<Longrightarrow> batch_inv key s \<Longrightarrow> payload_ok key p"
  by (cases "bs_run s") (auto simp: batch_inv_def bs_in_flight_def payload_ok_def)

lemma batch_inv_offer:
  assumes "batch_inv key s" "payload_ok key p" "bs_chan s' = bs_chan (offer p s)" "bs_in_flight s' \<subseteq> bs_in_flight s"
  shows "batch_inv key s'"
proof -
  have "bs_offered s' \<subseteq> insert p (bs_offered s)" using offered_offer [of p s] assms(3) by (simp add: bs_offered_def)
  then show ?thesis using assms(1,2,4) by (auto simp: batch_inv_def)
qed

lemma batch_inv_frame:
  assumes "batch_inv key s" "bs_offered s' = bs_offered s" "\<And>ups. ups \<in> bs_in_flight s' \<Longrightarrow> ups \<in> bs_in_flight s \<or> batch_ok key ups"
  shows "batch_inv key s'"
  using assms by (auto simp: batch_inv_def)

lemma batch_inv_move: "bmove key c s s' \<Longrightarrow> entry_inv key s \<Longrightarrow> batch_inv key s \<Longrightarrow> batch_inv key s'"
proof (induction rule: bmove.induct)
  case (bm_run_collect s ups)
  have "distinct (map key ups)" by (rule batch_distinct [OF bm_run_collect.prems(1) bm_run_collect.hyps(2) ready_keys_dom])
  with bm_run_collect show ?case
    by (intro batch_inv_frame [OF bm_run_collect.prems(2)]) (auto simp: bs_in_flight_def bs_offered_def batch_ok_def split: if_splits)
next
  case (bm_collect_all s ups)
  have "distinct (map key ups)" by (rule batch_distinct [OF bm_collect_all.prems(1) bm_collect_all.hyps(2) subset_refl])
  with bm_collect_all show ?case
    by (intro batch_inv_frame [OF bm_collect_all.prems(2)]) (auto simp: bs_in_flight_def bs_offered_def batch_ok_def split: if_splits)
next
  case (bm_timer_collect s ups)
  have "distinct (map key ups)" by (rule batch_distinct [OF bm_timer_collect.prems(1) bm_timer_collect.hyps(2) ready_keys_dom])
  with bm_timer_collect show ?case
    by (intro batch_inv_frame [OF bm_timer_collect.prems(2)])
      (auto simp: bs_in_flight_def bs_offered_def batch_ok_def dest: in_diffD split: if_splits)
next
  case (bm_run_emit s p r)
  then show ?case
    by (intro batch_inv_offer [OF bm_run_emit.prems(2) emission_batch_ok [OF bm_run_emit.hyps bm_run_emit.prems(2)]])
      (cases "bs_run s"; auto simp: bs_in_flight_def)+
next
  case (bm_timer_emit ups s)
  then have "payload_ok key (ups, [])" by (auto simp: batch_inv_def bs_in_flight_def payload_ok_def)
  then show ?case
    by (rule batch_inv_offer [OF bm_timer_emit.prems(2)]) (auto simp: bs_in_flight_def dest: in_diffD)
next
  case (bm_close s)
  then show ?case
    by (intro batch_inv_frame [OF bm_close.prems(2)])
      (auto simp: bs_in_flight_def bs_offered_def close_chan_def chan_close_def split: if_splits)
qed (erule batch_inv_frame; auto simp: bs_in_flight_def bs_offered_def dest: in_diffD split: if_splits)+

section \<open>Accounting\<close>

text \<open>A value is accounted for when a goroutine holds it in a batch, when it was offered to the payload channel (sent, or
  dropped because the channel was full), or when the channel has been closed.\<close>

definition accounted :: "'v bstate \<Rightarrow> 'v \<Rightarrow> bool" where
  "accounted s v \<longleftrightarrow>
     (\<exists>ups \<in> bs_in_flight s. v \<in> set ups) \<or> (\<exists>p \<in> bs_offered s. v \<in> set (fst p)) \<or> bs_closed s"

lemma offered_open:
  "\<not> bs_closed s \<Longrightarrow> bsink.sink_ok s \<Longrightarrow> bs_offered (offer p s) = insert p (bs_offered s)"
  by (auto simp: bs_offered_def offer_def chan_send_nb_def bsink.sink_ok_def)

lemma accounted_mono:
  assumes "accounted s v" "bs_in_flight s \<subseteq> bs_in_flight s'" "bs_offered s \<subseteq> bs_offered s'" "bs_closed s \<Longrightarrow> bs_closed s'"
  shows "accounted s' v"
  using assms unfolding accounted_def by blast

lemma accounted_offer:
  assumes "accounted s v" "chan_inv s" "bs_chan s' = bs_chan (offer (ups, dels) s)" "bs_closed s' = bs_closed s"
    and "\<And>b. b \<in> bs_in_flight s \<Longrightarrow> b \<in> bs_in_flight s' \<or> b = ups"
  shows "accounted s' v"
proof (cases "bs_closed s")
  case True
  then show ?thesis by (simp add: accounted_def assms(4))
next
  case False
  then have "bs_offered s' = insert (ups, dels) (bs_offered s)"
    using assms(2,3) offered_open [of s] by (simp add: chan_inv_def bs_offered_def)
  then show ?thesis using assms(1,5) False by (auto simp: accounted_def)
qed

lemma accounted_move: "bmove key c s s' \<Longrightarrow> chan_inv s \<Longrightarrow> accounted s v \<Longrightarrow> accounted s' v"
proof (induction rule: bmove.induct)
  case (bm_run_emit s p r)
  obtain ups dels where p: "p = (ups, dels)" by (cases p)
  show ?case
    by (rule accounted_offer [OF bm_run_emit.prems(2,1), of _ ups dels])
      (use bm_run_emit.hyps p in \<open>cases "bs_run s"; auto simp: bs_in_flight_def\<close>)+
next
  case (bm_timer_emit ups s)
  show ?case
    by (rule accounted_offer [OF bm_timer_emit.prems(2,1), of _ ups "[]"]) (auto simp: bs_in_flight_def intro: in_removed)
next
  case (bm_close s)
  then show ?case by (simp add: accounted_def)
qed (erule accounted_mono; force simp: bs_in_flight_def bs_offered_def intro: in_removed)+

text \<open>Without a new change a value stays pending or is collected.\<close>

lemma value_survives:
  "bmove (key :: 'v \<Rightarrow> string) None s s' \<Longrightarrow> bs_entries s k = Some x \<Longrightarrow>
   (\<exists>x'. bs_entries s' k = Some x' \<and> en_value x' = en_value x) \<or> accounted s' (en_value x)"
proof (induction "None :: 'v change option" s s' rule: bmove.induct)
  case (bm_run_collect s ups)
  show ?case
  proof (cases "en_ready x")
    case True
    then have "en_value x \<in> set ups" using in_batch(1) bm_run_collect by blast
    then show ?thesis by (auto simp: accounted_def bs_in_flight_def)
  qed (use bm_run_collect.prems in \<open>simp add: kept_entry\<close>)
next
  case (bm_collect_all s ups)
  then have "en_value x \<in> set ups" using in_batch(2) by blast
  then show ?case by (auto simp: accounted_def bs_in_flight_def)
next
  case (bm_timer_collect s ups)
  show ?case
  proof (cases "en_ready x")
    case True
    then have "en_value x \<in> set ups" using in_batch(1) bm_timer_collect by blast
    then show ?thesis by (auto simp: accounted_def bs_in_flight_def)
  qed (use bm_timer_collect.prems in \<open>simp add: kept_entry\<close>)
next
  case (bm_mark c s)
  then show ?case by (cases c) (auto simp: mark_get)
qed auto

definition account_inv :: "('v \<Rightarrow> string) \<Rightarrow> 'v bstate \<Rightarrow> bool" where
  "account_inv key s \<longleftrightarrow>
     (\<forall>k t v. last_change key (bs_log s) k = Some (t, Put v) \<longrightarrow>
        (\<exists>x. bs_entries s k = Some x \<and> en_value x = v) \<or> accounted s v)"

lemma silent_log: "bmove (key :: 'v \<Rightarrow> string) None s s' \<Longrightarrow> bs_log s' = bs_log s"
  by (induction "None :: 'v change option" s s' rule: bmove.induct) auto

lemma account_inv_move:
  assumes "bmove key c s s'" "chan_inv s" "account_inv key s"
  shows "account_inv key s'"
proof (cases c)
  case None
  show ?thesis
    unfolding account_inv_def
  proof (intro allI impI)
    fix k t v
    assume "last_change key (bs_log s') k = Some (t, Put v)"
    then have "(\<exists>x. bs_entries s k = Some x \<and> en_value x = v) \<or> accounted s v"
      using assms(3) silent_log [OF assms(1) [unfolded None]] by (simp add: account_inv_def)
    then show "(\<exists>x. bs_entries s' k = Some x \<and> en_value x = v) \<or> accounted s' v"
      using value_survives [OF assms(1) [unfolded None]] accounted_move [OF assms(1,2)] by metis
  qed
next
  case (Some ch)
  from assms(1,3) show ?thesis unfolding Some
    by (cases rule: bmove.cases) (auto simp: account_inv_def accounted_def bs_in_flight_def bs_offered_def)
qed

section \<open>All together\<close>

definition good :: "('v \<Rightarrow> string) \<Rightarrow> 'v bstate \<Rightarrow> bool" where
  "good key s \<longleftrightarrow> chan_inv s \<and> entry_inv key s \<and> latest_inv key s \<and> batch_inv key s \<and> account_inv key s"

lemma good_move: "good key s \<Longrightarrow> bmove key c s s' \<Longrightarrow> good key s'"
  unfolding good_def
  using chan_inv_move entry_inv_move latest_inv_move batch_inv_move account_inv_move by blast

interpretation good: buffer_invariant key "good key" for key
  by unfold_locales (rule good_move)

text \<open>A buffer as it is created.\<close>

definition fresh :: "'v bstate \<Rightarrow> bool" where
  "fresh s \<longleftrightarrow> bs_entries s = Map.empty \<and> (\<exists>n > 0. bs_chan s = make_chan n) \<and> \<not> bs_closed s \<and>
     bs_run s = Selecting \<and> bs_goroutines s = {#} \<and> bs_log s = []"

lemma fresh_good: "fresh s \<Longrightarrow> good key s"
  by (auto simp: fresh_def good_def chan_inv_def bsink.sink_ok_def entry_inv_def latest_inv_def batch_inv_def
      account_inv_def bs_in_flight_def bs_offered_def)

end
