(* ===== verification/Replica.thy ===== *)
theory Replica
  imports Prelude
begin

text \<open>
  The receiver's view. Whoever applies the payloads of a pipeline in the order they are sent holds a
  replica: a map from keys to the value last reported.
\<close>

text \<open>Applying one payload: its upserts in order, then its deletes.\<close>

definition apply_changes :: "('v \<Rightarrow> 'k) \<Rightarrow> 'v list \<Rightarrow> 'k list \<Rightarrow> ('k \<rightharpoonup> 'v) \<Rightarrow> 'k \<rightharpoonup> 'v" where
  "apply_changes key ups dels m = fold (\<lambda>k m. m(k := None)) dels (fold (\<lambda>v m. m(key v \<mapsto> v)) ups m)"

definition received_state :: "('v \<Rightarrow> 'k) \<Rightarrow> ('v list \<times> 'k list) list \<Rightarrow> 'k \<rightharpoonup> 'v" where
  "received_state key ps = fold (\<lambda>(ups, dels). apply_changes key ups dels) ps Map.empty"

lemma received_state_snoc:
  "received_state key (ps @ [(ups, dels)]) = apply_changes key ups dels (received_state key ps)"
  by (simp add: received_state_def)

lemma apply_changes_delete [simp]: "apply_changes key [] [k] m = m(k := None)"
  by (simp add: apply_changes_def)

text \<open>Upserts that agree with a state bring the replica to that state at their keys.\<close>

lemma apply_changes_upserts:
  "(\<And>v. v \<in> set ups \<Longrightarrow> st (key v) = Some v) \<Longrightarrow>
   apply_changes key ups [] m = (\<lambda>k. if k \<in> key ` set ups then st k else m k)"
  unfolding apply_changes_def by (induction ups arbitrary: m) (auto simp: fun_eq_iff)

end
