(* ===== verification/Buffer_Replica.thy ===== *)
theory Buffer_Replica
  imports Buffer_Invariants Replica
begin

text \<open>
  A buffer keeps its receiver up to date: every value on its way is the current one, and where
  nothing is on its way the receiver has the current state. This holds on every calm schedule: the payload channel is never
  full, a change of a key that a timer goroutine holds in a batch repeats the value of the batch, and \<open>Run\<close> does
  not close the channel while a timer goroutine holds a batch.
\<close>

section \<open>The state the changes describe\<close>

fun apply_change :: "('v \<Rightarrow> string) \<Rightarrow> 'v change \<Rightarrow> (string \<rightharpoonup> 'v) \<Rightarrow> string \<rightharpoonup> 'v" where
  "apply_change key (Put v) m = m(key v \<mapsto> v)"
| "apply_change key (Del k) m = m(k := None)"

definition changed_state :: "('v \<Rightarrow> string) \<Rightarrow> 'v change list \<Rightarrow> string \<rightharpoonup> 'v" where
  "changed_state key cs = fold (apply_change key) cs Map.empty"

definition current :: "('v \<Rightarrow> string) \<Rightarrow> 'v bstate \<Rightarrow> string \<rightharpoonup> 'v" where
  "current key s = changed_state key (map snd (bs_log s))"

lemma changed_state_snoc: "changed_state key (cs @ [c]) = apply_change key c (changed_state key cs)"
  by (simp add: changed_state_def)

section \<open>What is on its way\<close>

fun run_held :: "'v run_state \<Rightarrow> 'v set" where
  "run_held (EmitBatch ups) = set ups"
| "run_held (EmitFinal ups) = set ups"
| "run_held _ = {}"

fun doomed :: "'v run_state \<Rightarrow> string set" where
  "doomed (EmitDelete k) = {k}"
| "doomed _ = {}"

definition timer_held :: "'v bstate \<Rightarrow> 'v set" where
  "timer_held s = {v. \<exists>ups. Emitting ups \<in># bs_goroutines s \<and> v \<in> set ups}"

definition held :: "'v bstate \<Rightarrow> 'v set" where
  "held s = run_held (bs_run s) \<union> timer_held s"

definition calm_move :: "('v \<Rightarrow> string) \<Rightarrow> 'v change option \<Rightarrow> 'v bstate \<Rightarrow> 'v bstate \<Rightarrow> bool" where
  "calm_move key c s s' \<longleftrightarrow>
     ch_dropped (bs_chan s') = ch_dropped (bs_chan s) \<and>
     (case c of
        None \<Rightarrow> True
      | Some (Put v) \<Rightarrow> \<forall>u \<in> timer_held s. key u = key v \<longrightarrow> u = v
      | Some (Del k) \<Rightarrow> k \<notin> key ` timer_held s) \<and>
     (bs_closed s' \<longrightarrow> timer_held s = {})"

section \<open>The invariant\<close>

definition flow_inv :: "('v \<Rightarrow> string) \<Rightarrow> 'v bstate \<Rightarrow> bool" where
  "flow_inv key s \<longleftrightarrow>
     (\<forall>v \<in> held s. current key s (key v) = Some v) \<and>
     (\<forall>k x. bs_entries s k = Some x \<longrightarrow> current key s k = Some (en_value x)) \<and>
     (\<forall>k \<in> doomed (bs_run s). current key s k = None) \<and>
     (\<forall>k. k \<notin> dom (bs_entries s) \<union> key ` held s \<union> doomed (bs_run s) \<longrightarrow>
        received_state key (ch_sent (bs_chan s)) k = current key s k) \<and>
     ((\<exists>ups. bs_run s = EmitFinal ups) \<or> bs_run s \<in> {Closing, Returned} \<longrightarrow> bs_entries s = Map.empty) \<and>
     (bs_run s = Returned \<longrightarrow> timer_held s = {})"

lemma current_cong: "bs_log s' = bs_log s \<Longrightarrow> current key s' = current key s"
  by (simp add: current_def)

lemma timer_held_add [simp]:
  "timer_held (s\<lparr>bs_goroutines := add_mset g G\<rparr>) =
     (case g of Emitting ups \<Rightarrow> set ups | _ \<Rightarrow> {}) \<union> timer_held (s\<lparr>bs_goroutines := G\<rparr>)"
  by (auto simp: timer_held_def split: goroutine.splits)

lemma timer_held_remove:
  assumes "g \<in># bs_goroutines s" "\<And>ups. g \<noteq> Emitting ups"
  shows "timer_held (s\<lparr>bs_goroutines := bs_goroutines s - {#g#}\<rparr>) = timer_held s"
  using assms by (auto simp: timer_held_def intro: in_removed dest: in_diffD)

lemma timer_held_remove_batch:
  assumes "Emitting ups \<in># bs_goroutines s"
  shows "timer_held s = timer_held (s\<lparr>bs_goroutines := bs_goroutines s - {#Emitting ups#}\<rparr>) \<union> set ups"
  using assms by (auto simp: timer_held_def intro: in_removed dest: in_diffD)


text \<open>A move without a new change: what is held was held or pending, what is pending was pending.\<close>

lemma flow_keep:
  assumes "flow_inv key s" "entry_inv key s" "bs_log s' = bs_log s" "doomed (bs_run s') \<subseteq> doomed (bs_run s)"
    and held: "\<And>v. v \<in> held s' \<Longrightarrow> v \<in> held s \<or> (\<exists>k x. bs_entries s k = Some x \<and> v = en_value x)"
    and pend: "\<And>k x. bs_entries s' k = Some x \<Longrightarrow> \<exists>y. bs_entries s k = Some y \<and> en_value x = en_value y"
    and sent: "\<And>k. k \<notin> dom (bs_entries s') \<union> key ` held s' \<union> doomed (bs_run s') \<Longrightarrow>
      received_state key (ch_sent (bs_chan s')) k = current key s k"
    and fin: "(\<exists>ups. bs_run s' = EmitFinal ups) \<or> bs_run s' \<in> {Closing, Returned} \<Longrightarrow> bs_entries s' = Map.empty"
      "bs_run s' = Returned \<Longrightarrow> timer_held s' = {}"
  shows "flow_inv key s'"
proof -
  have cur: "current key s' = current key s" using assms(3) by (rule current_cong)
  have "current key s (key v) = Some v" if "v \<in> held s'" for v
    using held [OF that] assms(1) entry_invD(1) [OF assms(2)] by (auto simp: flow_inv_def)
  moreover have "current key s k = Some (en_value x)" if "bs_entries s' k = Some x" for k x
    using pend [OF that] assms(1) by (auto simp: flow_inv_def)
  ultimately show ?thesis
    unfolding flow_inv_def cur using assms(1,4) sent fin by (auto simp: flow_inv_def)
qed

lemma flow_frame:
  assumes "flow_inv key s" "bs_log s' = bs_log s" "doomed (bs_run s') = doomed (bs_run s)" "held s' = held s"
    and E: "\<And>k. map_option en_value (bs_entries s' k) = map_option en_value (bs_entries s k)"
    and "ch_sent (bs_chan s') = ch_sent (bs_chan s)"
    and fin: "(\<exists>ups. bs_run s' = EmitFinal ups) \<or> bs_run s' \<in> {Closing, Returned} \<Longrightarrow> bs_entries s' = Map.empty"
      "bs_run s' = Returned \<Longrightarrow> timer_held s' = {}"
  shows "flow_inv key s'"
proof -
  have dom: "dom (bs_entries s') = dom (bs_entries s)"
    using E by (metis (no_types, opaque_lifting) domIff option.map_disc_iff subsetI subset_antisym)
  have "current key s k = Some (en_value x)" if x: "bs_entries s' k = Some x" for k x
  proof -
    obtain y where "bs_entries s k = Some y" "en_value y = en_value x" using E [of k] x
      by (cases "bs_entries s k") auto
    then show ?thesis using assms(1) by (auto simp: flow_inv_def)
  qed
  then show ?thesis
    unfolding flow_inv_def current_cong [OF assms(2)] dom assms(3,4,6) using assms(1) fin by (simp add: flow_inv_def)
qed

lemma flow_sent:
  "flow_inv key s \<Longrightarrow> k \<notin> dom (bs_entries s) \<union> key ` held s \<union> doomed (bs_run s) \<Longrightarrow>
   received_state key (ch_sent (bs_chan s)) k = current key s k"
  by (simp add: flow_inv_def)

text \<open>Moving values from the entries into the hands of a goroutine.\<close>

lemma flow_collect:
  assumes "flow_inv key s" "entry_inv key s" "bs_log s' = bs_log s" "bs_chan s' = bs_chan s"
    and "doomed (bs_run s') = doomed (bs_run s)" "held s' = held s \<union> set ups"
    and "set ups \<subseteq> {en_value x | k x. bs_entries s k = Some x}"
    and pend: "\<And>k x. bs_entries s' k = Some x \<Longrightarrow> \<exists>y. bs_entries s k = Some y \<and> en_value x = en_value y"
    and left: "\<And>k x. bs_entries s k = Some x \<Longrightarrow> k \<notin> dom (bs_entries s') \<Longrightarrow> en_value x \<in> set ups"
    and fin: "(\<exists>ups. bs_run s' = EmitFinal ups) \<or> bs_run s' \<in> {Closing, Returned} \<Longrightarrow> bs_entries s' = Map.empty"
      "bs_run s' = Returned \<Longrightarrow> timer_held s' = {}"
  shows "flow_inv key s'"
proof (rule flow_keep [OF assms(1-3) _ _ pend _ fin])
  show "v \<in> held s \<or> (\<exists>k x. bs_entries s k = Some x \<and> v = en_value x)" if "v \<in> held s'" for v
    using that assms(6,7) by auto
  fix k
  assume k: "k \<notin> dom (bs_entries s') \<union> key ` held s' \<union> doomed (bs_run s')"
  have "k \<notin> dom (bs_entries s)"
  proof
    assume "k \<in> dom (bs_entries s)"
    then obtain x where x: "bs_entries s k = Some x" by auto
    then have "en_value x \<in> set ups" using left k by auto
    then show False using k assms(6) entry_invD(1) [OF assms(2) x] by auto
  qed
  with k show "received_state key (ch_sent (bs_chan s')) k = current key s k"
    unfolding assms(4) by (intro flow_sent [OF assms(1)]) (auto simp: assms(5,6))
qed (simp_all add: assms(5))

text \<open>Moving a batch from the hands of a goroutine to the receiver.\<close>

lemma flow_emit:
  assumes "flow_inv key s" "entry_inv key s" "bs_log s' = bs_log s" "bs_entries s' = bs_entries s"
    and "held s = held s' \<union> set ups" "doomed (bs_run s') = doomed (bs_run s)"
    and "ch_sent (bs_chan s') = ch_sent (bs_chan s) @ [(ups, [])]"
    and fin: "(\<exists>ups. bs_run s' = EmitFinal ups) \<or> bs_run s' \<in> {Closing, Returned} \<Longrightarrow> bs_entries s' = Map.empty"
      "bs_run s' = Returned \<Longrightarrow> timer_held s' = {}"
  shows "flow_inv key s'"
proof (rule flow_keep [OF assms(1-3) _ _ _ _ fin])
  fix k
  assume k: "k \<notin> dom (bs_entries s') \<union> key ` held s' \<union> doomed (bs_run s')"
  have "current key s (key v) = Some v" if "v \<in> set ups" for v
    using that assms(1,5) by (simp add: flow_inv_def)
  then have "received_state key (ch_sent (bs_chan s')) =
      (\<lambda>k. if k \<in> key ` set ups then current key s k else received_state key (ch_sent (bs_chan s)) k)"
    unfolding assms(7) received_state_snoc by (rule apply_changes_upserts)
  moreover have "received_state key (ch_sent (bs_chan s)) k = current key s k" if "k \<notin> key ` set ups"
    using that k by (intro flow_sent [OF assms(1)]) (auto simp: assms(4-6))
  ultimately show "received_state key (ch_sent (bs_chan s')) k = current key s k" by simp
qed (use assms(4-6) in auto)

lemma flow_emit_delete:
  assumes "flow_inv key s" "entry_inv key s" "bs_run s = EmitDelete k"
    and "s' = (offer ([], [k]) s)\<lparr>bs_run := Selecting\<rparr>"
    and "ch_sent (bs_chan s') = ch_sent (bs_chan s) @ [([], [k])]"
  shows "flow_inv key s'"
proof (rule flow_keep [OF assms(1,2)])
  show "v \<in> held s \<or> (\<exists>k x. bs_entries s k = Some x \<and> v = en_value x)" if "v \<in> held s'" for v
    using that assms(3) by (auto simp: assms(4) held_def timer_held_def)
  fix j
  assume j: "j \<notin> dom (bs_entries s') \<union> key ` held s' \<union> doomed (bs_run s')"
  have "current key s k = None" using assms(1,3) by (simp add: flow_inv_def)
  moreover have "received_state key (ch_sent (bs_chan s)) j = current key s j" if "j \<noteq> k"
    using that j assms(3) by (intro flow_sent [OF assms(1)]) (auto simp: assms(4) held_def timer_held_def)
  ultimately show "received_state key (ch_sent (bs_chan s')) j = current key s j"
    unfolding assms(5) received_state_snoc by simp
qed (simp_all add: assms(4))

text \<open>A received change; no batch of a timer goroutine contradicts it.\<close>

lemma flow_change:
  assumes "flow_inv key s" "bs_run s = Selecting" "bmove key (Some c) s s'" "calm_move key (Some c) s s'"
  shows "flow_inv key s'"
proof -
  have held: "held s = timer_held s" "held s' = timer_held s" "timer_held s' = timer_held s" "doomed (bs_run s) = {}"
    using assms(2,3) by (auto simp: held_def timer_held_def elim!: bmove_changeE)
  have cur: "current key s' = apply_change key c (current key s)"
    using assms(3) by (rule bmove_changeE) (simp_all add: current_def changed_state_snoc)
  have chan: "ch_sent (bs_chan s') = ch_sent (bs_chan s)"
    using assms(3) by (rule bmove_changeE) simp_all
  from assms(3) show ?thesis
  proof (cases rule: bmove.cases)
    case (bm_put v g w)
    then show ?thesis
      using assms(1,4) unfolding flow_inv_def held cur chan by (auto simp: calm_move_def)
  next
    case (bm_del k)
    then show ?thesis
      using assms(1,4) unfolding flow_inv_def held cur chan by (auto simp: calm_move_def)
  qed
qed


section \<open>Every calm move keeps it\<close>

lemma offer_sent:
  assumes "chan_inv s" "bs_run s \<noteq> Returned" "ch_dropped (bs_chan (offer p s)) = ch_dropped (bs_chan s)"
  shows "ch_sent (bs_chan (offer p s)) = ch_sent (bs_chan s) @ [p]"
  using assms by (auto simp: chan_inv_def bsink.sink_ok_def offer_def chan_send_nb_def split: if_splits)

lemma flow_run_emit:
  assumes "flow_inv key s" "entry_inv key s" "chan_inv s" "emission (bs_run s) = Some (p, r)"
    and s': "s' = (offer p s)\<lparr>bs_run := r\<rparr>" and "calm_move key None s s'"
  shows "flow_inv key s'"
proof -
  have sent: "ch_sent (bs_chan s') = ch_sent (bs_chan s) @ [p]"
    using assms(6) offer_sent [OF assms(3), of p] emission_running [OF assms(4)]
    by (simp add: s' calm_move_def)
  show ?thesis
  proof (cases "bs_run s")
    case (EmitDelete k)
    then show ?thesis using assms(4) sent by (intro flow_emit_delete [OF assms(1,2)]) (auto simp: s')
  next
    case (EmitBatch ups)
    then show ?thesis using assms(4) sent
      by (intro flow_emit [OF assms(1,2), of _ ups]) (auto simp: s' held_def timer_held_def)
  next
    case (EmitFinal ups)
    moreover have "bs_entries s = Map.empty" using assms(1) EmitFinal by (simp add: flow_inv_def)
    ultimately show ?thesis using assms(4) sent
      by (intro flow_emit [OF assms(1,2), of _ ups]) (auto simp: s' held_def timer_held_def)
  qed (use assms(4) in simp_all)
qed

lemma flow_timer_emit:
  assumes "flow_inv key s" "entry_inv key s" "chan_inv s" "Emitting ups \<in># bs_goroutines s"
    and s': "s' = (offer (ups, []) s)\<lparr>bs_goroutines := bs_goroutines s - {#Emitting ups#}\<rparr>"
    and "calm_move key None s s'"
  shows "flow_inv key s'"
proof -
  have held: "timer_held s = timer_held s' \<union> set ups"
    using timer_held_remove_batch [OF assms(4)] by (simp add: s' timer_held_def)
  show ?thesis
  proof (cases "bs_run s = Returned")
    case True
    then have none: "timer_held s = {}" "bs_entries s = Map.empty" and "bs_closed s"
      using assms(1,3) by (auto simp: flow_inv_def chan_inv_def)
    then have "bs_chan s' = bs_chan s" by (simp add: s' offer_def)
    then show ?thesis
      using none held True
      by (intro flow_keep [OF assms(1,2)]) (auto simp: s' held_def intro: flow_sent [OF assms(1)])
  next
    case False
    then have "ch_sent (bs_chan s') = ch_sent (bs_chan s) @ [(ups, [])]"
      using assms(6) offer_sent [OF assms(3), of "(ups, [])"] by (simp add: s' calm_move_def)
    then show ?thesis
      using held False assms(1)
      by (intro flow_emit [OF assms(1,2), of _ ups]) (auto simp: s' held_def flow_inv_def)
  qed
qed

lemma flow_timer_collect:
  assumes "flow_inv key s" "entry_inv key s" "Flushing \<in># bs_goroutines s"
    and "batch_of (bs_entries s) (ready_keys (bs_entries s)) ups"
    and s': "s' = s\<lparr>bs_entries := bs_entries s |` (- ready_keys (bs_entries s)),
          bs_goroutines := bs_goroutines s - {#Flushing#} + (if ups = [] then {#} else {#Emitting ups#})\<rparr>"
  shows "flow_inv key s'"
proof -
  have held: "timer_held s' = timer_held s \<union> set ups"
    using timer_held_remove [OF assms(3)] by (auto simp: s' timer_held_def)
  have none: "set ups = {}" if "bs_entries s = Map.empty" using that batch_ready [OF assms(4)] by simp
  show ?thesis
  proof (rule flow_collect [OF assms(1,2), of _ ups])
    show "en_value x \<in> set ups" if "bs_entries s k = Some x" "k \<notin> dom (bs_entries s')" for k x
      using that collected_left [OF assms(4)] by (simp add: s')
  qed (use held none assms(1) batch_pending(1) [OF assms(4)] in \<open>auto simp: s' held_def flow_inv_def kept_entry\<close>)
qed

lemma flow_inv_move:
  assumes "bmove key c s s'" "calm_move key c s s'" "good key s" "flow_inv key s"
  shows "flow_inv key s'"
proof (cases c)
  case (Some ch)
  have "bs_run s = Selecting" using assms(1) unfolding Some by (rule bmove_changeE)
  then show ?thesis using flow_change [OF assms(4), of ch s'] assms(1,2) Some by simp
next
  case None
  have inv: "chan_inv s" "entry_inv key s" using assms(3) by (simp_all add: good_def)
  from assms(1,2,4) inv show ?thesis unfolding None
  proof (induction "None :: 'a change option" s s' rule: bmove.induct)
    case (bm_run_collect s ups)
    show ?case
      by (rule flow_collect [OF bm_run_collect.prems(2,4), of _ ups])
        (use bm_run_collect collected_left [OF bm_run_collect.hyps(2)] batch_pending(1) [OF bm_run_collect.hyps(2)] in
          \<open>auto simp: held_def timer_held_def kept_entry split: if_splits\<close>)
  next
    case (bm_collect_all s ups)
    show ?case
      by (rule flow_collect [OF bm_collect_all.prems(2,4), of _ ups])
        (use bm_collect_all in_batch(2) [OF bm_collect_all.hyps(2)] batch_pending(2) [OF bm_collect_all.hyps(2)] in
          \<open>auto simp: held_def timer_held_def split: if_splits\<close>)
  next
    case (bm_run_emit s p r)
    then show ?case by (intro flow_run_emit [OF _ _ _ _ refl])
  next
    case (bm_timer_emit ups s)
    then show ?case by (intro flow_timer_emit [OF _ _ _ _ refl])
  next
    case (bm_timer_collect s ups)
    then show ?case by (intro flow_timer_collect [OF _ _ _ _ refl])
  next
    case (bm_mark c s)
    have "timer_held (s\<lparr>bs_entries := mark c (bs_entries s), bs_goroutines := add_mset Marked (bs_goroutines s - {#Fired c#})\<rparr>) =
        timer_held s"
      using timer_held_remove [OF bm_mark.hyps(1)] by (auto simp: timer_held_def)
    then show ?case
      by (intro flow_frame [OF bm_mark.prems(2)]) (use bm_mark.prems(2) in \<open>simp_all add: held_def flow_inv_def\<close>)
  next
    case (bm_check s)
    have "timer_held (s\<lparr>bs_goroutines := bs_goroutines s - {#Marked#} +
            (if bs_max s \<le> int (card (ready_keys (bs_entries s))) then {#Flushing#} else {#})\<rparr>) = timer_held s"
      using timer_held_remove [OF bm_check.hyps(1)] by (auto simp: timer_held_def)
    then show ?case
      by (intro flow_frame [OF bm_check.prems(2)]) (use bm_check.prems(2) in \<open>simp_all add: held_def flow_inv_def\<close>)
  next
    case (bm_close s)
    show ?case
      by (rule flow_frame [OF bm_close.prems(2)])
        (use bm_close in \<open>simp_all add: held_def flow_inv_def calm_move_def timer_held_def close_chan_def chan_close_def\<close>)
  next
    case (bm_expire h c w s)
    show ?case
      by (rule flow_frame [OF bm_expire.prems(2)]) (use bm_expire.prems(2) in \<open>simp_all add: held_def flow_inv_def timer_held_def\<close>)
  next
    case (bm_shutdown s)
    show ?case
      by (rule flow_frame [OF bm_shutdown.prems(2)]) (use bm_shutdown.hyps in \<open>simp_all add: held_def timer_held_def\<close>)
  next
    case (bm_time s dt)
    then show ?case by (simp add: flow_inv_def held_def timer_held_def current_def)
  next
    case (bm_recv s p ps)
    then show ?case by (simp add: flow_inv_def held_def timer_held_def current_def)
  qed
qed

lemma fresh_flow: "fresh s \<Longrightarrow> flow_inv key s"
  by (auto simp: fresh_def flow_inv_def held_def timer_held_def received_state_def current_def changed_state_def)

text \<open>Where nothing is on its way, the receiver is up to date; in particular after the shutdown.\<close>

lemma idle_state:
  assumes "flow_inv key s" "bs_run s = Selecting \<or> bs_run s = Returned" "timer_held s = {}" "bs_entries s = Map.empty"
  shows "received_state key (ch_sent (bs_chan s)) = changed_state key (map snd (bs_log s))"
proof
  fix k
  have "held s = {}" "doomed (bs_run s) = {}" using assms(2,3) by (auto simp: held_def)
  then show "received_state key (ch_sent (bs_chan s)) k = changed_state key (map snd (bs_log s)) k"
    using flow_sent [OF assms(1), of k] assms(4) by (simp add: current_def)
qed

lemma returned_state:
  assumes "flow_inv key s" "bs_run s = Returned"
  shows "received_state key (ch_sent (bs_chan s)) = changed_state key (map snd (bs_log s))"
  using assms by (intro idle_state) (auto simp: flow_inv_def)

end
