(* ===== verification/Buffer_Progress.thy ===== *)
theory Buffer_Progress
  imports Buffer_Replica
begin

text \<open>
  A buffer can always go on by itself until nothing is on its way: while \<open>Run\<close> has not begun to shut
  down there is a calm path of silent moves (no change is received) that ends with \<open>Run\<close> in its select, no timer
  goroutine and no entry. The measure \<open>work\<close> decreases along it.
\<close>

section \<open>Silent calm moves\<close>

definition quiet :: "('v \<Rightarrow> string) \<Rightarrow> 'v bstate \<Rightarrow> 'v bstate \<Rightarrow> bool" where
  "quiet key s s' \<longleftrightarrow> bmove key None s s' \<and> calm_move key None s s'"

fun running :: "'v run_state \<Rightarrow> bool" where
  "running Selecting = True"
| "running (EmitDelete k) = True"
| "running (EmitBatch ups) = True"
| "running _ = False"

text \<open>Nothing is left to flush, and no payload waits for the sender either.\<close>

definition flushed :: "'v bstate \<Rightarrow> bool" where
  "flushed s \<longleftrightarrow> bs_run s = Selecting \<and> bs_goroutines s = {#} \<and> bs_entries s = Map.empty"

definition idle :: "'v bstate \<Rightarrow> bool" where
  "idle s \<longleftrightarrow> flushed s \<and> ch_buf (bs_chan s) = []"

lemma path_good: "(quiet key)\<^sup>*\<^sup>* s s' \<Longrightarrow> good key s \<Longrightarrow> good key s'"
  by (induction rule: rtranclp_induct) (auto simp: quiet_def intro: good_move)

lemma path_log: "(quiet key)\<^sup>*\<^sup>* s s' \<Longrightarrow> bs_log s' = bs_log s"
  by (induction rule: rtranclp_induct) (auto simp: quiet_def dest: silent_log)

lemma running_open: "good key s \<Longrightarrow> running (bs_run s) \<Longrightarrow> \<not> bs_closed s \<and> \<not> ch_closed (bs_chan s)"
  by (cases "bs_run s") (auto simp: good_def chan_inv_def bsink.sink_ok_def)

lemma quietI:
  assumes "bmove key None s s'" "ch_dropped (bs_chan s') = ch_dropped (bs_chan s)" "\<not> bs_closed s'"
  shows "quiet key s s'"
  using assms by (simp add: quiet_def calm_move_def)

text \<open>The sender can always make room.\<close>

lemma make_room:
  assumes "good key s" "running (bs_run s)"
  obtains c where "(quiet key)\<^sup>*\<^sup>* s (s\<lparr>bs_chan := c\<rparr>)" "chan_room c" "\<not> ch_closed c" "ch_sent c = ch_sent (bs_chan s)"
proof (cases "chan_room (bs_chan s)")
  case True
  then show ?thesis using that [of "bs_chan s"] running_open [OF assms] by simp
next
  case False
  have cap: "length (ch_buf (bs_chan s)) \<le> ch_cap (bs_chan s)" "0 < ch_cap (bs_chan s)"
    using assms(1) by (auto simp: good_def chan_inv_def bsink.sink_ok_def chan_ok_def)
  then obtain p ps where buf: "ch_buf (bs_chan s) = p # ps"
    using False by (cases "ch_buf (bs_chan s)") (auto simp: chan_room_def)
  then have "quiet key s (s\<lparr>bs_chan := (bs_chan s)\<lparr>ch_buf := ps\<rparr>\<rparr>)"
    using running_open [OF assms] by (intro quietI bm_recv) auto
  then show ?thesis
    using that [of "(bs_chan s)\<lparr>ch_buf := ps\<rparr>"] running_open [OF assms] cap(1) buf by (auto simp: chan_room_def)
qed

lemma offer_room:
  "chan_room (bs_chan s) \<Longrightarrow> \<not> ch_closed (bs_chan s) \<Longrightarrow> \<not> bs_closed s \<Longrightarrow>
   offer p s = s\<lparr>bs_chan := chan_push p (bs_chan s)\<rparr>"
  by (simp add: offer_def chan_send_nb_room)

section \<open>The measure\<close>

definition waiting_keys :: "'v entries \<Rightarrow> string set" where
  "waiting_keys E = {k. \<exists>x. E k = Some x \<and> \<not> en_ready x}"

fun steps_left :: "'v goroutine \<Rightarrow> nat" where
  "steps_left (Fired c) = 4"
| "steps_left Marked = 3"
| "steps_left Flushing = 2"
| "steps_left (Emitting ups) = 1"

definition work :: "'v bstate \<Rightarrow> nat" where
  "work s = 5 * card (waiting_keys (bs_entries s)) + 2 * card (dom (bs_entries s)) +
     (\<Sum>g \<in># bs_goroutines s. steps_left g) + (if bs_run s = Selecting then 0 else 1)"

lemma waiting_keys_dom: "waiting_keys E \<subseteq> dom E"
  by (auto simp: waiting_keys_def)

lemma waiting_mark: "waiting_keys (mark c E) \<subseteq> waiting_keys E"
  by (auto simp: waiting_keys_def elim!: mark_SomeE)

lemma waiting_mark_own:
  assumes "E k = Some x" "\<not> en_ready x"
  shows "waiting_keys (mark (k, en_gen x) E) = waiting_keys E - {k}"
  using assms by (auto simp: waiting_keys_def mark_get split: option.splits if_splits)

lemma waiting_collect [simp]: "waiting_keys (E |` (- ready_keys E)) = waiting_keys E"
  by (auto simp: waiting_keys_def kept_entry)

lemma remove_one:
  "g \<in># G \<Longrightarrow> (\<Sum>g \<in># G. steps_left g) = steps_left g + (\<Sum>g \<in># G - {#g#}. steps_left g)"
  by (metis insert_DiffM sum_mset.insert)

lemma card_kept: "finite (dom E) \<Longrightarrow> card (dom (E |` (- ready_keys E))) \<le> card (dom E)"
  by (rule card_mono) auto

section \<open>Progress\<close>

lemma finite_entries: "good key s \<Longrightarrow> finite (dom (bs_entries s)) \<and> finite (waiting_keys (bs_entries s))"
  by (auto simp: good_def entry_inv_def intro: finite_subset [OF waiting_keys_dom])

text \<open>A timer goroutine goes on.\<close>

lemma goroutine_progress:
  assumes "good key s" "running (bs_run s)" "g \<in># bs_goroutines s"
  shows "\<exists>s'. (quiet key)\<^sup>*\<^sup>* s s' \<and> running (bs_run s') \<and> work s' < work s"
proof (cases g)
  case (Fired c)
  let ?s' = "s\<lparr>bs_entries := mark c (bs_entries s), bs_goroutines := add_mset Marked (bs_goroutines s - {#Fired c#})\<rparr>"
  have "card (waiting_keys (mark c (bs_entries s))) \<le> card (waiting_keys (bs_entries s))"
    using finite_entries [OF assms(1)] by (intro card_mono waiting_mark) simp
  then have "work ?s' < work s" using remove_one [OF assms(3)] Fired by (simp add: work_def)
  moreover have "quiet key s ?s'"
    using assms Fired running_open [OF assms(1,2)] by (intro quietI bm_mark) auto
  ultimately show ?thesis using assms(2) by (intro exI [of _ ?s']) auto
next
  case Marked
  let ?s' = "s\<lparr>bs_goroutines := bs_goroutines s - {#Marked#} +
            (if bs_max s \<le> int (card (ready_keys (bs_entries s))) then {#Flushing#} else {#})\<rparr>"
  have "work ?s' < work s" using remove_one [OF assms(3)] Marked by (simp add: work_def)
  moreover have "quiet key s ?s'"
    using assms Marked running_open [OF assms(1,2)] by (intro quietI bm_check) auto
  ultimately show ?thesis using assms(2) by (intro exI [of _ ?s']) auto
next
  case Flushing
  obtain ups where ups: "batch_of (bs_entries s) (ready_keys (bs_entries s)) ups"
    using batch_exists finite_entries [OF assms(1)] ready_keys_dom finite_subset by metis
  let ?s' = "s\<lparr>bs_entries := bs_entries s |` (- ready_keys (bs_entries s)),
          bs_goroutines := bs_goroutines s - {#Flushing#} + (if ups = [] then {#} else {#Emitting ups#})\<rparr>"
  have "work ?s' < work s"
    using remove_one [OF assms(3)] Flushing card_kept [of "bs_entries s"] finite_entries [OF assms(1)]
    by (simp add: work_def)
  moreover have "quiet key s ?s'"
    using assms Flushing ups running_open [OF assms(1,2)] by (intro quietI bm_timer_collect) auto
  ultimately show ?thesis using assms(2) by (intro exI [of _ ?s']) auto
next
  case (Emitting ups)
  obtain c where c: "(quiet key)\<^sup>*\<^sup>* s (s\<lparr>bs_chan := c\<rparr>)" "chan_room c" "\<not> ch_closed c"
    using make_room [OF assms(1,2)] .
  let ?u = "s\<lparr>bs_chan := c\<rparr>"
  let ?s' = "(offer (ups, []) ?u)\<lparr>bs_goroutines := bs_goroutines ?u - {#Emitting ups#}\<rparr>"
  have "bmove key None ?u ?s'" using assms(3) Emitting by (intro bm_timer_emit) simp
  then have "quiet key ?u ?s'"
    using running_open [OF assms(1,2)] c(2,3) by (intro quietI) (auto simp: offer_room)
  moreover have "work ?s' < work s" using remove_one [OF assms(3)] Emitting by (simp add: work_def)
  ultimately show ?thesis
    using c(1) assms(2) by (intro exI [of _ ?s']) (auto intro: rtranclp.rtrancl_into_rtrancl)
qed

text \<open>\<open>Run\<close> emits what it holds.\<close>

lemma run_progress:
  assumes "good key s" "running (bs_run s)" "bs_run s \<noteq> Selecting"
  shows "\<exists>s'. (quiet key)\<^sup>*\<^sup>* s s' \<and> bs_run s' = Selecting \<and> bs_entries s' = bs_entries s \<and>
    bs_goroutines s' = bs_goroutines s \<and>
    (\<forall>ups. bs_run s = EmitBatch ups \<longrightarrow> ch_sent (bs_chan s') = ch_sent (bs_chan s) @ [(ups, [])])"
proof -
  obtain c where c: "(quiet key)\<^sup>*\<^sup>* s (s\<lparr>bs_chan := c\<rparr>)" "chan_room c" "\<not> ch_closed c" "ch_sent c = ch_sent (bs_chan s)"
    using make_room [OF assms(1,2)] .
  obtain p where p: "emission (bs_run s) = Some (p, Selecting)" "\<forall>ups. bs_run s = EmitBatch ups \<longrightarrow> p = (ups, [])"
    using assms(2,3) by (cases "bs_run s") auto
  let ?u = "s\<lparr>bs_chan := c\<rparr>"
  let ?s' = "(offer p ?u)\<lparr>bs_run := Selecting\<rparr>"
  have "bmove key None ?u ?s'" using p(1) by (intro bm_run_emit) simp
  moreover have off: "offer p ?u = ?u\<lparr>bs_chan := chan_push p c\<rparr>"
    using running_open [OF assms(1,2)] c(2,3) by (simp add: offer_room)
  ultimately have "quiet key ?u ?s'"
    using running_open [OF assms(1,2)] by (intro quietI) auto
  with c(1,4) p(2) off show ?thesis
    by (intro exI [of _ ?s']) (auto intro: rtranclp.rtrancl_into_rtrancl)
qed

text \<open>The timer of an entry that waits makes it ready.\<close>

lemma ripen:
  assumes "good key s" "running (bs_run s)" "bs_entries s k = Some x" "\<not> en_ready x"
  shows "\<exists>s' G. (quiet key)\<^sup>*\<^sup>* s s' \<and> bs_run s' = bs_run s \<and> bs_chan s' = bs_chan s \<and>
    bs_entries s' = mark (k, en_gen x) (bs_entries s) \<and> bs_goroutines s' = add_mset Marked G \<and> G \<subseteq># bs_goroutines s"
proof -
  let ?c = "(k, en_gen x)"
  have open_s: "\<not> bs_closed s" using running_open [OF assms(1,2)] by simp
  have "awaits s k x" using assms by (auto simp: good_def dest: entry_invD(3))
  then consider (armed) w where "(en_timer x, ?c, w) \<in># bs_armed s" | (fired) "Fired ?c \<in># bs_goroutines s"
    by (auto simp: awaits_def)
  then show ?thesis
  proof cases
    case armed
    let ?u = "s\<lparr>bs_now := bs_now s + int (nat (w - bs_now s))\<rparr>"
    let ?v = "?u\<lparr>bs_armed := bs_armed ?u - {#(en_timer x, ?c, w)#}, bs_goroutines := add_mset (Fired ?c) (bs_goroutines ?u)\<rparr>"
    let ?s' = "?v\<lparr>bs_entries := mark ?c (bs_entries ?v), bs_goroutines := add_mset Marked (bs_goroutines ?v - {#Fired ?c#})\<rparr>"
    have "quiet key s ?u" using open_s by (intro quietI bm_time) auto
    moreover have "quiet key ?u ?v" using open_s armed by (intro quietI bm_expire) auto
    moreover have "quiet key ?v ?s'" using open_s by (intro quietI bm_mark) auto
    ultimately have "(quiet key)\<^sup>*\<^sup>* s ?s'" by (meson rtranclp.rtrancl_refl rtranclp.rtrancl_into_rtrancl)
    then show ?thesis by (intro exI [of _ ?s'] exI [of _ "bs_goroutines s"]) simp
  next
    case fired
    let ?s' = "s\<lparr>bs_entries := mark ?c (bs_entries s), bs_goroutines := add_mset Marked (bs_goroutines s - {#Fired ?c#})\<rparr>"
    have "quiet key s ?s'" using open_s fired by (intro quietI bm_mark) auto
    then show ?thesis by (intro exI [of _ ?s'] exI [of _ "bs_goroutines s - {#Fired ?c#}"]) auto
  qed
qed

text \<open>The flush tick collects everything that is ready.\<close>

lemma tick:
  assumes "good key s" "bs_run s = Selecting"
  shows "\<exists>ups. quiet key s (s\<lparr>bs_entries := bs_entries s |` (- ready_keys (bs_entries s)),
      bs_run := (if ups = [] then Selecting else EmitBatch ups)\<rparr>) \<and>
    (\<forall>k x. bs_entries s k = Some x \<longrightarrow> en_ready x \<longrightarrow> en_value x \<in> set ups)"
proof -
  obtain ups where ups: "batch_of (bs_entries s) (ready_keys (bs_entries s)) ups"
    using batch_exists finite_entries [OF assms(1)] ready_keys_dom finite_subset by metis
  then show ?thesis
    using assms running_open [OF assms(1)] in_batch(1) [OF ups]
    by (intro exI [of _ ups] conjI quietI bm_run_collect) auto
qed

lemma progress:
  assumes "good key s" "running (bs_run s)" "\<not> flushed s"
  shows "\<exists>s'. (quiet key)\<^sup>*\<^sup>* s s' \<and> running (bs_run s') \<and> work s' < work s"
proof -
  consider (timer) g where "g \<in># bs_goroutines s" | (emit) "bs_run s \<noteq> Selecting"
    | (wait) k x where "bs_entries s k = Some x" "\<not> en_ready x" "bs_run s = Selecting" "bs_goroutines s = {#}"
    | (flush) "bs_run s = Selecting" "bs_goroutines s = {#}" "waiting_keys (bs_entries s) = {}"
    by (auto simp: waiting_keys_def) (metis multiset_nonemptyE)
  then show ?thesis
  proof cases
    case timer
    then show ?thesis by (rule goroutine_progress [OF assms(1,2)])
  next
    case emit
    with run_progress [OF assms(1,2)] obtain s' where "(quiet key)\<^sup>*\<^sup>* s s'" "bs_run s' = Selecting"
      "bs_entries s' = bs_entries s" "bs_goroutines s' = bs_goroutines s" by blast
    then show ?thesis using emit by (intro exI [of _ s']) (simp add: work_def)
  next
    case wait
    from ripen [OF assms(1,2) wait(1,2)] wait(4) obtain s' where s': "(quiet key)\<^sup>*\<^sup>* s s'" "bs_run s' = bs_run s"
      "bs_entries s' = mark (k, en_gen x) (bs_entries s)" "bs_goroutines s' = {#Marked#}" by auto
    have "Suc (card (waiting_keys (bs_entries s'))) = card (waiting_keys (bs_entries s))"
      unfolding s'(3) waiting_mark_own [of "bs_entries s" k x, OF wait(1,2)]
      using wait(1,2) finite_entries [OF assms(1)] by (intro card_Suc_Diff1) (auto simp: waiting_keys_def)
    then have "work s' < work s" using s'(2-4) wait(3,4) by (simp add: work_def)
    with s'(1,2) wait(3) show ?thesis by (intro exI [of _ s']) simp
  next
    case flush
    from tick [OF assms(1) flush(1)] obtain ups where t: "quiet key s (s\<lparr>bs_entries := bs_entries s |` (- ready_keys (bs_entries s)),
        bs_run := (if ups = [] then Selecting else EmitBatch ups)\<rparr>)" (is "quiet key s ?s'") by blast
    have none: "bs_entries ?s' = Map.empty"
      using flush(3) by (auto simp: waiting_keys_def fun_eq_iff restrict_map_def ready_keys_def)
    have "bs_entries s \<noteq> Map.empty" using assms(3) flush by (simp add: flushed_def)
    then have "0 < card (dom (bs_entries s))" using finite_entries [OF assms(1)] by (simp add: card_gt_0_iff)
    then have "work ?s' < work s" using none flush by (simp add: work_def waiting_keys_def)
    with t show ?thesis by (intro exI [of _ ?s']) auto
  qed
qed

lemma becomes_flushed:
  assumes "good key s" "running (bs_run s)"
  shows "\<exists>s'. (quiet key)\<^sup>*\<^sup>* s s' \<and> flushed s'"
  using assms
proof (induction "work s" arbitrary: s rule: less_induct)
  case less
  show ?case
  proof (cases "flushed s")
    case False
    then obtain u where u: "(quiet key)\<^sup>*\<^sup>* s u" "running (bs_run u)" "work u < work s"
      using progress less.prems by blast
    then obtain s' where "(quiet key)\<^sup>*\<^sup>* u s'" "flushed s'"
      using less.hyps [OF u(3)] path_good [OF u(1)] less.prems(1) by blast
    with u(1) show ?thesis by (meson rtranclp_trans)
  qed blast
qed

lemma drains_channel:
  assumes "flushed s" "\<not> bs_closed s"
  shows "\<exists>s'. (quiet key)\<^sup>*\<^sup>* s s' \<and> idle s'"
  using assms
proof (induction "ch_buf (bs_chan s)" arbitrary: s)
  case Nil
  then have "idle s" by (simp add: idle_def)
  then show ?case by blast
next
  case (Cons p ps)
  let ?u = "s\<lparr>bs_chan := (bs_chan s)\<lparr>ch_buf := ps\<rparr>\<rparr>"
  have "quiet key s ?u" using Cons.prems(2) by (intro quietI bm_recv [OF Cons.hyps(2) [symmetric]]) simp_all
  moreover have "\<exists>s'. (quiet key)\<^sup>*\<^sup>* ?u s' \<and> idle s'" using Cons.prems by (intro Cons.hyps(1)) (simp_all add: flushed_def)
  ultimately show ?case by (meson converse_rtranclp_into_rtranclp)
qed

lemma becomes_idle:
  assumes "good key s" "running (bs_run s)"
  shows "\<exists>s'. (quiet key)\<^sup>*\<^sup>* s s' \<and> idle s'"
proof -
  obtain u where u: "(quiet key)\<^sup>*\<^sup>* s u" "flushed u" using becomes_flushed [OF assms] by blast
  have "\<not> bs_closed u" using running_open [OF path_good [OF u(1) assms(1)]] u(2) by (simp add: flushed_def)
  from drains_channel [OF u(2) this] u(1) show ?thesis by (meson rtranclp_trans)
qed

text \<open>In particular no entry is stuck: one more payload is sent, with its value, and \<open>Run\<close> is in its select again.\<close>

lemma entry_flushes:
  assumes "good key s" "bs_run s = Selecting" "bs_entries s k = Some x"
  shows "\<exists>s' ups. (quiet key)\<^sup>*\<^sup>* s s' \<and> bs_run s' = Selecting \<and> en_value x \<in> set ups \<and>
    ch_sent (bs_chan s') = ch_sent (bs_chan s) @ [(ups, [])]"
proof -
  obtain u y where u: "(quiet key)\<^sup>*\<^sup>* s u" "bs_run u = Selecting" "bs_entries u k = Some y" "en_ready y" "en_value y = en_value x"
    "bs_chan u = bs_chan s"
  proof (cases "en_ready x")
    case True
    with assms that show ?thesis by blast
  next
    case False
    from ripen [OF assms(1) _ assms(3) this] assms(2) obtain u where "(quiet key)\<^sup>*\<^sup>* s u" "bs_run u = Selecting"
      "bs_chan u = bs_chan s" "bs_entries u = mark (k, en_gen x) (bs_entries s)" by auto
    with assms(3) that [of u "x\<lparr>en_ready := True\<rparr>"] show ?thesis by (simp add: mark_get)
  qed
  have good_u: "good key u" using path_good [OF u(1) assms(1)] .
  from tick [OF good_u u(2)] obtain ups where t: "quiet key u (u\<lparr>bs_entries := bs_entries u |` (- ready_keys (bs_entries u)),
      bs_run := (if ups = [] then Selecting else EmitBatch ups)\<rparr>)" (is "quiet key u ?v") "en_value y \<in> set ups"
    using u(3,4) by blast
  then have "bs_run ?v = EmitBatch ups" by auto
  moreover have "good key ?v" using good_u t(1) by (auto simp: quiet_def intro: good_move)
  ultimately obtain s' where "(quiet key)\<^sup>*\<^sup>* ?v s'" "bs_run s' = Selecting"
    "ch_sent (bs_chan s') = ch_sent (bs_chan u) @ [(ups, [])]"
    using run_progress [of key ?v] by auto
  moreover have "(quiet key)\<^sup>*\<^sup>* s ?v" using u(1) t(1) by (rule rtranclp.rtrancl_into_rtrancl)
  ultimately show ?thesis using t(2) u(5,6) by (metis rtranclp_trans)
qed

end
