(* ===== verification/Buffer_Refinement.thy ===== *)
theory Buffer_Refinement
  imports Buffer_Progress
begin

text \<open>
  What it means to implement the specification, and what follows for every implementation. The model of each
  debounce buffer interprets the locales with its step function and an abstraction of its states.
\<close>

section \<open>Calm steps of an implementation\<close>

definition calmly :: "('s \<Rightarrow> 's \<Rightarrow> bool) \<Rightarrow> ('l \<Rightarrow> 's \<Rightarrow> 's option) \<Rightarrow> 'l \<Rightarrow> 's \<Rightarrow> 's option" where
  "calmly ok step l s =
     (case step l s of Some s' \<Rightarrow> if ok s s' then Some s' else None | None \<Rightarrow> None)"

lemma calmly_Some: "calmly ok step l s = Some s' \<longleftrightarrow> step l s = Some s' \<and> ok s s'"
  by (auto simp: calmly_def split: option.splits)

section \<open>Implementations\<close>

text \<open>Every step is a move of the specification, every silent move is a step, and in its select the buffer accepts
  every change.\<close>

locale buffer_impl =
  fixes key :: "'v \<Rightarrow> string"
    and step :: "'l \<Rightarrow> 's \<Rightarrow> 's option"
    and abs :: "'s \<Rightarrow> 'v bstate"
    and change :: "'l \<Rightarrow> 'v change option"
    and wf :: "'s \<Rightarrow> bool"
  assumes wf_step: "wf s \<Longrightarrow> step l s = Some s' \<Longrightarrow> wf s'"
    and sound: "wf s \<Longrightarrow> step l s = Some s' \<Longrightarrow> bmove key (change l) (abs s) (abs s')"
    and complete: "wf s \<Longrightarrow> bmove key None (abs s) a \<Longrightarrow>
      \<exists>l s'. step l s = Some s' \<and> change l = None \<and> abs s' = a"
    and accepts: "change l = Some c \<Longrightarrow> bs_run (abs s) = Selecting \<Longrightarrow> \<exists>s'. step l s = Some s'"
begin

definition silent :: "'l list \<Rightarrow> bool" where
  "silent ls \<longleftrightarrow> (\<forall>l \<in> set ls. change l = None)"

lemma silent_Nil [simp]: "silent []"
  by (simp add: silent_def)

lemma silent_append [simp]: "silent (ls @ ls') \<longleftrightarrow> silent ls \<and> silent ls'"
  by (auto simp: silent_def)

text \<open>A history that silent steps leave alone.\<close>

lemma silent_history:
  assumes "run_steps step ls s = Some s'" "silent ls"
    and "\<And>l s s'. step l s = Some s' \<Longrightarrow> change l = None \<Longrightarrow> h s' = h s"
  shows "h s' = h s"
  using assms(1,2)
proof (induction ls arbitrary: s)
  case (Cons l ls)
  then obtain u where "step l s = Some u" "run_steps step ls u = Some s'" "change l = None" "silent ls"
    by (auto simp: silent_def split: option.splits)
  then show ?case using Cons.IH assms(3) by metis
qed simp

lemma reach_wf: "reach step s0 s \<Longrightarrow> wf s0 \<Longrightarrow> wf s"
  by (induction rule: reach.induct) (auto intro: wf_step)

lemma reach_invariant:
  assumes "reach step s0 s" "wf s0" "buffer_invariant key Inv" "Inv (abs s0)"
  shows "Inv (abs s)"
  using assms(1)
proof (induction rule: reach.induct)
  case (reach_step s l s')
  then show ?case using buffer_invariant.move_keeps [OF assms(3)] sound reach_wf assms(2) by blast
qed (rule assms(4))

lemma reach_good: "reach step s0 s \<Longrightarrow> wf s0 \<Longrightarrow> fresh (abs s0) \<Longrightarrow> good key (abs s)"
  using reach_invariant good.buffer_invariant_axioms fresh_good by blast

text \<open>A path of silent moves is a schedule of every step function that can follow it move by move.\<close>

lemma follow_path:
  assumes "(quiet key)\<^sup>*\<^sup>* (abs s) a" "wf s"
    and follow: "\<And>u b. wf u \<Longrightarrow> quiet key (abs u) b \<Longrightarrow> \<exists>l s'. step' l u = Some s' \<and> change l = None \<and> abs s' = b \<and> wf s'"
  shows "\<exists>ls s'. run_steps step' ls s = Some s' \<and> silent ls \<and> abs s' = a \<and> wf s'"
  using assms(1)
proof (induction rule: rtranclp_induct)
  case base
  then show ?case using assms(2) by (intro exI [of _ "[]"] exI [of _ s]) simp
next
  case (step a b)
  then obtain ls u where u: "run_steps step' ls s = Some u" "silent ls" "abs u = a" "wf u" by blast
  then obtain l s' where s': "step' l u = Some s'" "change l = None" "abs s' = b" "wf s'"
    using follow [OF u(4), of b] step.hyps(2) by auto
  then have "run_steps step' (ls @ [l]) s = Some s'" "silent (ls @ [l])"
    using u by (auto simp: run_steps_append silent_def)
  with s'(3,4) show ?case by blast
qed

lemma follow_step:
  assumes "wf u" "quiet key (abs u) b"
  shows "\<exists>l s'. step l u = Some s' \<and> change l = None \<and> abs s' = b \<and> wf s'"
proof -
  obtain l s' where "step l u = Some s'" "change l = None" "abs s' = b"
    using complete [OF assms(1), of b] assms(2) by (auto simp: quiet_def)
  then show ?thesis using wf_step [OF assms(1)] by blast
qed

text \<open>A pending value is sent, with the next payload.\<close>

lemma pending_flushes:
  assumes "good key (abs s)" "wf s" "bs_run (abs s) = Selecting" "bs_entries (abs s) k = Some x"
  shows "\<exists>ls s' ups. run_steps step ls s = Some s' \<and> silent ls \<and> bs_run (abs s') = Selecting \<and> en_value x \<in> set ups \<and>
    ch_sent (bs_chan (abs s')) = ch_sent (bs_chan (abs s)) @ [(ups, [])]"
proof -
  obtain a ups where a: "(quiet key)\<^sup>*\<^sup>* (abs s) a" "bs_run a = Selecting" "en_value x \<in> set ups"
    "ch_sent (bs_chan a) = ch_sent (bs_chan (abs s)) @ [(ups, [])]"
    using entry_flushes [OF assms(1,3,4)] by blast
  obtain ls s' where "run_steps step ls s = Some s'" "silent ls" "abs s' = a"
    using follow_path [where step' = step, OF a(1) assms(2) follow_step] by blast
  then show ?thesis using a(2-4) by metis
qed

end

locale calm_buffer_impl = buffer_impl key step abs change wf
  for key :: "'v \<Rightarrow> string" and step :: "'l \<Rightarrow> 's \<Rightarrow> 's option" and abs :: "'s \<Rightarrow> 'v bstate"
    and change :: "'l \<Rightarrow> 'v change option" and wf :: "'s \<Rightarrow> bool" +
  fixes calm :: "'s \<Rightarrow> 's \<Rightarrow> bool"
  assumes calm_iff: "step l s = Some s' \<Longrightarrow> calm s s' \<longleftrightarrow> calm_move key (change l) (abs s) (abs s')"
begin

definition converges :: "'s \<Rightarrow> bool" where
  "converges s \<longleftrightarrow> wf s \<and> good key (abs s) \<and> flow_inv key (abs s)"

lemma calm_step_converges:
  assumes "converges s" "calmly calm step l s = Some s'"
  shows "converges s'"
proof -
  have s': "step l s = Some s'" "calm s s'" using assms(2) by (auto simp: calmly_Some)
  then have "bmove key (change l) (abs s) (abs s')" "calm_move key (change l) (abs s) (abs s')"
    using assms(1) calm_iff sound by (auto simp: converges_def)
  then show ?thesis
    using assms(1) wf_step [OF _ s'(1)] good_move flow_inv_move unfolding converges_def by blast
qed

lemma init_converges: "wf s \<Longrightarrow> fresh (abs s) \<Longrightarrow> converges s"
  by (simp add: converges_def fresh_good fresh_flow)

lemma follow_calmly:
  assumes "wf u" "quiet key (abs u) b"
  shows "\<exists>l s'. calmly calm step l u = Some s' \<and> change l = None \<and> abs s' = b \<and> wf s'"
proof -
  obtain l s' where s': "step l u = Some s'" "change l = None" "abs s' = b" "wf s'"
    using follow_step [OF assms] by blast
  then have "calmly calm step l u = Some s'"
    using calm_iff [OF s'(1)] assms(2) by (simp add: calmly_Some quiet_def)
  with s' show ?thesis by blast
qed

text \<open>A running buffer can go on calmly until nothing is on its way.\<close>

lemma settles:
  assumes "converges s" "running (bs_run (abs s))"
  shows "\<exists>ls s'. run_steps (calmly calm step) ls s = Some s' \<and> silent ls \<and> idle (abs s') \<and> converges s' \<and>
    bs_log (abs s') = bs_log (abs s)"
proof -
  obtain a where a: "(quiet key)\<^sup>*\<^sup>* (abs s) a" "idle a"
    using becomes_idle assms by (auto simp: converges_def)
  have w: "wf s" using assms(1) by (simp add: converges_def)
  obtain ls s' where s': "run_steps (calmly calm step) ls s = Some s'" "silent ls" "abs s' = a"
    using follow_path [where step' = "calmly calm step", OF a(1) w follow_calmly] by blast
  have "converges s'"
    using s'(1) assms(1)
    by (rule invariant_system.run_keeps [rotated]) (unfold_locales, rule calm_step_converges)
  with s' a path_log [OF a(1)] show ?thesis by blast
qed

text \<open>An idle buffer accepts every change, and it is calm.\<close>

lemma idle_accepts:
  assumes "converges s" "idle (abs s)" "change l = Some c"
  shows "\<exists>s'. calmly calm step l s = Some s' \<and> converges s' \<and> running (bs_run (abs s'))"
proof -
  have run: "bs_run (abs s) = Selecting" "timer_held (abs s) = {}" using assms(2) by (auto simp: idle_def flushed_def timer_held_def)
  obtain s' where s': "step l s = Some s'" using accepts [OF assms(3) run(1)] by blast
  then have m: "bmove key (Some c) (abs s) (abs s')" using sound assms(1,3) by (metis converges_def)
  then have "ch_dropped (bs_chan (abs s')) = ch_dropped (bs_chan (abs s))" "running (bs_run (abs s'))"
    using run(1) by (auto elim!: bmove_changeE)
  then have "calm s s'" using calm_iff [OF s'] assms(3) run(2) by (auto simp: calm_move_def split: change.splits)
  with s' have "calmly calm step l s = Some s'" by (simp add: calmly_Some)
  with \<open>running (bs_run (abs s'))\<close> calm_step_converges [OF assms(1)] show ?thesis by blast
qed

end

sublocale calm_buffer_impl \<subseteq> calm_system: invariant_system "calmly calm step" converges
  by unfold_locales (rule calm_step_converges)

end
