(* ===== verification/Debounce_Refinement.thy ===== *)
theory Debounce_Refinement
  imports Debounce_Lemmas Buffer_Refinement
begin

text \<open>
  The instance buffer implements the specification of \<open>Buffer_Spec\<close>: values are instances with
  their ID as key. Every step of the concurrent system is a move, every silent move is a step.
\<close>

section \<open>The payload channel\<close>

interpretation dsink: payload_sink emitPayload closePayloads Payloads payloadsClosed
  by unfold_locales (auto simp: emitPayload_def closePayloads_def)

section \<open>The abstraction\<close>

definition abs_entry :: "pendingChange \<Rightarrow> ResourceInstance entry" where
  "abs_entry x = \<lparr>en_value = pc_instance x, en_timer = pc_timer x, en_ready = pc_ready x, en_gen = pc_gen x\<rparr>"

definition entries_of :: "(string, pendingChange) gomap \<Rightarrow> ResourceInstance entries" where
  "entries_of m i = map_option abs_entry (gm_get m i)"

definition payload_view :: "SyncPayload \<Rightarrow> ResourceInstance payload" where
  "payload_view p = (Upserts p, Deletes p)"

lemma payload_view_sel [simp]: "fst (payload_view p) = Upserts p" "snd (payload_view p) = Deletes p"
  by (simp_all add: payload_view_def)

fun change_of :: "ResourceEvent \<Rightarrow> ResourceInstance change" where
  "change_of e = (if re_Type e = EventDelete then Del (ri_ID (re_Instance e)) else Put (re_Instance e))"

fun event_change :: "dlabel \<Rightarrow> ResourceInstance change option" where
  "event_change (LEvent e) = Some (change_of e)"
| "event_change _ = None"

fun abs_run :: "run_pc \<Rightarrow> ResourceInstance run_state" where
  "abs_run RSelect = Selecting"
| "abs_run (REmitDelete i) = EmitDelete i"
| "abs_run (REmitBatch ups) = EmitBatch ups"
| "abs_run RFlushAll = FlushAll"
| "abs_run (REmitFinal ups) = EmitFinal ups"
| "abs_run RClose = Closing"
| "abs_run RDone = Returned"

fun abs_timer :: "timer_pc \<Rightarrow> ResourceInstance goroutine" where
  "abs_timer (TFired c) = Fired c"
| "abs_timer TMarked = Marked"
| "abs_timer TFlush = Flushing"
| "abs_timer (TEmit ups) = Emitting ups"

definition dabs :: "dsys \<Rightarrow> ResourceInstance bstate" where
  "dabs s =
     \<lparr>bs_entries = entries_of (pending (ds_buf s)), bs_now = tm_now (timers (ds_buf s)),
      bs_armed = mset (tm_armed (timers (ds_buf s))), bs_next = tm_next (timers (ds_buf s)),
      bs_max = maxBatchSize (ds_buf s), bs_chan = chan_map payload_view (Payloads (ds_buf s)),
      bs_closed = payloadsClosed (ds_buf s), bs_run = abs_run (ds_run s),
      bs_goroutines = mset (map abs_timer (ds_timers s)),
      bs_log = map (\<lambda>(t, e). (t, change_of e)) (ds_events s)\<rparr>"

definition pending_wf :: "dsys \<Rightarrow> bool" where
  "pending_wf s \<longleftrightarrow> gm_wf (pending (ds_buf s))"

lemma dabs_sel [simp]:
  "bs_entries (dabs s) = entries_of (pending (ds_buf s))" "bs_now (dabs s) = tm_now (timers (ds_buf s))"
  "bs_armed (dabs s) = mset (tm_armed (timers (ds_buf s)))" "bs_next (dabs s) = tm_next (timers (ds_buf s))"
  "bs_max (dabs s) = maxBatchSize (ds_buf s)" "bs_chan (dabs s) = chan_map payload_view (Payloads (ds_buf s))"
  "bs_closed (dabs s) = payloadsClosed (ds_buf s)" "bs_run (dabs s) = abs_run (ds_run s)"
  "bs_goroutines (dabs s) = mset (map abs_timer (ds_timers s))"
  "bs_log (dabs s) = map (\<lambda>(t, e). (t, change_of e)) (ds_events s)"
  by (simp_all add: dabs_def)

lemma abs_entry_sel [simp]:
  "en_value (abs_entry x) = pc_instance x" "en_timer (abs_entry x) = pc_timer x"
  "en_ready (abs_entry x) = pc_ready x" "en_gen (abs_entry x) = pc_gen x"
  by (simp_all add: abs_entry_def)

lemma abs_run_iff [simp]:
  "abs_run r = Selecting \<longleftrightarrow> r = RSelect" "abs_run r = EmitDelete i \<longleftrightarrow> r = REmitDelete i"
  "abs_run r = EmitBatch ups \<longleftrightarrow> r = REmitBatch ups" "abs_run r = FlushAll \<longleftrightarrow> r = RFlushAll"
  "abs_run r = EmitFinal ups \<longleftrightarrow> r = REmitFinal ups" "abs_run r = Closing \<longleftrightarrow> r = RClose"
  "abs_run r = Returned \<longleftrightarrow> r = RDone"
  by (cases r; simp)+

lemma abs_timer_iff [simp]:
  "abs_timer t = Fired c \<longleftrightarrow> t = TFired c" "abs_timer t = Marked \<longleftrightarrow> t = TMarked"
  "abs_timer t = Flushing \<longleftrightarrow> t = TFlush" "abs_timer t = Emitting ups \<longleftrightarrow> t = TEmit ups"
  by (cases t; simp)+

section \<open>The critical sections under the abstraction\<close>

lemma entries_of_Nil [simp]: "entries_of [] = Map.empty"
  by (simp add: entries_of_def fun_eq_iff)

lemma entries_of_Some: "entries_of m i = Some y \<longleftrightarrow> (\<exists>x. gm_get m i = Some x \<and> y = abs_entry x)"
  by (auto simp: entries_of_def)

lemma entries_of_put [simp]: "entries_of (gm_put i x m) = (entries_of m)(i \<mapsto> abs_entry x)"
  by (simp add: entries_of_def fun_eq_iff)

lemma entries_of_del [simp]: "entries_of (gm_del i m) = (entries_of m)(i := None)"
  by (simp add: entries_of_def fun_eq_iff)

lemma dom_entries_of [simp]: "dom (entries_of m) = dom (gm_get m)"
  by (auto simp: entries_of_def)

lemma ready_keys_entries: "ready_keys (entries_of m) = {i. is_ready m i}"
  by (auto simp: ready_keys_def entries_of_Some is_ready_def split: option.splits)

lemma entries_of_empty_iff: "entries_of m = Map.empty \<longleftrightarrow> m = []"
  by (metis dom_entries_of dom_eq_empty_conv gm_empty_iff)

lemma markReady_entries [simp]: "entries_of (pending (markReady c d)) = mark c (entries_of (pending d))"
  by (cases c) (auto simp: markReady_def mark_def entries_of_def fun_eq_iff abs_entry_def split: option.splits)

lemma readyCount_card:
  assumes "gm_wf (pending d)"
  shows "readyCount d = card (ready_keys (entries_of (pending d)))"
proof -
  let ?r = "filter (\<lambda>(_, x). pc_ready x) (pending d)"
  have "distinct (map fst ?r)" using assms by (simp add: gm_wf_def gm_keys_def distinct_map_filter)
  then have "card (fst ` set ?r) = length ?r" by (metis distinct_card length_map list.set_map)
  moreover have "fst ` set ?r = ready_keys (entries_of (pending d))"
    using gm_get_Some_iff [OF assms] by (force simp: ready_keys_def entries_of_Some)
  ultimately show ?thesis by (simp add: readyCount_eq)
qed

lemma stop_timers_one:
  "stop_timers (entries_of m) {i} A =
     (case gm_get m i of Some x \<Rightarrow> filter_mset (\<lambda>c. fst c \<noteq> pc_timer x) A | None \<Rightarrow> A)"
  by (auto simp: stop_timers_def entries_of_def split: option.splits)

lemma cancelPending_abs:
  "mset (tm_armed (timers (cancelPending i d))) =
     stop_timers (entries_of (pending d)) {i} (mset (tm_armed (timers d)))"
  by (simp add: stop_timers_one cancelPending_def split: option.splits)

lemma debounceUpsert_abs:
  "mset (tm_armed (timers (debounceUpsert r d))) =
     add_mset (tm_next (timers d), (ri_ID r, next_gen d (ri_ID r)), tm_now (timers d) + max 0 (sint (debounceWindow d)))
       (stop_timers (entries_of (pending d)) {ri_ID r} (mset (tm_armed (timers d))))"
  by (simp add: stop_timers_one debounceUpsert_def next_gen_def Let_def split: option.splits)

section \<open>Collecting under the abstraction\<close>

lemma inst_at_entry: "i \<in> dom (gm_get m) \<Longrightarrow> inst_at m i = en_value (the (entries_of m i))"
  by (auto simp: inst_at_def entries_of_def)

lemma map_inst_at:
  "set ks \<subseteq> dom (gm_get m) \<Longrightarrow> map (inst_at m) ks = map (\<lambda>k. en_value (the (entries_of m k))) ks"
  by (intro map_cong inst_at_entry) auto

lemma collectReady_abs:
  assumes "range_order ord (pending d)" "gm_wf (pending d)" "collectReady ord d = (ups, d')"
  shows "batch_of (entries_of (pending d)) (ready_keys (entries_of (pending d))) ups"
    and "entries_of (pending d') = entries_of (pending d) |` (- ready_keys (entries_of (pending d)))"
    and "gm_wf (pending d')" "d' = d\<lparr>pending := pending d'\<rparr>"
proof -
  note spec = collectReady_spec [OF assms]
  let ?ks = "filter (is_ready (pending d)) ord"
  have "distinct ?ks" "set ?ks = {i. is_ready (pending d) i}" "set ?ks \<subseteq> dom (gm_get (pending d))"
    using range_order_distinct [OF assms(1,2)] range_order_set [OF assms(1)]
    by (auto simp: is_ready_def split: option.splits)
  then show "batch_of (entries_of (pending d)) (ready_keys (entries_of (pending d))) ups"
    unfolding batch_of_def spec(1) ready_keys_entries by (intro exI [of _ ?ks]) (simp add: map_inst_at)
  show "entries_of (pending d') = entries_of (pending d) |` (- ready_keys (entries_of (pending d)))"
    by (auto simp: entries_of_def [abs_def] spec(2) restrict_map_def ready_keys_entries [unfolded entries_of_def [abs_def]])
qed (rule collectReady_spec [OF assms])+

lemma collectReady_reach:
  assumes "gm_wf (pending d)" "batch_of (entries_of (pending d)) (ready_keys (entries_of (pending d))) ups"
  shows "\<exists>ord d'. range_order ord (pending d) \<and> collectReady ord d = (ups, d')"
proof -
  obtain ks where ks: "distinct ks" "set ks = {i. is_ready (pending d) i}"
    "ups = map (\<lambda>k. en_value (the (entries_of (pending d) k))) ks"
    using assms(2) by (auto simp: batch_of_def ready_keys_entries)
  then have sub: "set ks \<subseteq> dom (gm_get (pending d))" by (auto simp: is_ready_def split: option.splits)
  let ?ord = "ks @ filter (\<lambda>k. k \<notin> set ks) (gm_keys (pending d))"
  have o: "range_order ?ord (pending d)" using range_order_first [OF assms(1) ks(1) sub] .
  obtain ups' d' where c: "collectReady ?ord d = (ups', d')" by (cases "collectReady ?ord d")
  have "filter (is_ready (pending d)) ?ord = ks" using ks(2) by (simp add: filter_id_conv filter_empty_conv)
  then have "ups' = ups" using collectReady_spec(1) [OF o assms(1) c] ks(3) map_inst_at [OF sub] by simp
  with o c show ?thesis by blast
qed

lemma collect_all_loop_timers:
  "distinct ord \<Longrightarrow> set ord \<subseteq> dom (gm_get pend) \<Longrightarrow>
   mset (tm_armed (snd (snd (collect_all_loop ord pend t ups)))) =
     stop_timers (entries_of pend) (set ord) (mset (tm_armed t))"
proof (induction ord pend t ups rule: collect_all_loop.induct)
  case (1 pend t ups)
  show ?case by simp
next
  case (2 i ord pend t ups)
  then obtain x where x: "gm_get pend i = Some x" by auto
  have "set ord \<subseteq> dom (gm_get (gm_del i pend))" "distinct ord" using "2.prems" by (auto simp: gm_get_del_fun)
  note IH = "2.IH"(2) [OF x this(2,1)]
  show ?case
    using x IH "2.prems"
    by (auto simp: stop_timers_def entries_of_def filter_filter_mset intro!: filter_mset_cong)
qed

lemma collectAll_abs:
  assumes "range_order ord (pending d)" "gm_wf (pending d)" "collectAll ord d = (ups, d')"
  shows "batch_of (entries_of (pending d)) (dom (entries_of (pending d))) ups"
    and "mset (tm_armed (timers d')) = stop_timers (entries_of (pending d)) (dom (entries_of (pending d))) (mset (tm_armed (timers d)))"
proof -
  note spec = collectAll_spec [OF assms]
  have ord: "distinct ord" "set ord = dom (gm_get (pending d))"
    using range_order_distinct [OF assms(1,2)] range_order_set [OF assms(1)] .
  then show "batch_of (entries_of (pending d)) (dom (entries_of (pending d))) ups"
    unfolding batch_of_def spec(1) by (intro exI [of _ ord]) (simp add: map_inst_at)
  show "mset (tm_armed (timers d')) = stop_timers (entries_of (pending d)) (dom (entries_of (pending d))) (mset (tm_armed (timers d)))"
    using assms(3) collect_all_loop_timers [OF ord(1), of "pending d" "timers d" "[]"] ord(2)
    by (auto simp: collectAll_def split: if_splits prod.splits)
qed

lemma collectAll_reach:
  assumes "gm_wf (pending d)" "batch_of (entries_of (pending d)) (dom (entries_of (pending d))) ups"
  shows "\<exists>ord d'. range_order ord (pending d) \<and> collectAll ord d = (ups, d')"
proof -
  obtain ks where ks: "distinct ks" "set ks = dom (gm_get (pending d))"
    "ups = map (\<lambda>k. en_value (the (entries_of (pending d) k))) ks"
    using assms(2) by (auto simp: batch_of_def)
  have "filter (\<lambda>k. k \<notin> set ks) (gm_keys (pending d)) = []"
    by (simp add: filter_empty_conv ks(2) flip: set_gm_keys)
  then have o: "range_order ks (pending d)" using range_order_first [OF assms(1) ks(1)] ks(2) by simp
  obtain ups' d' where c: "collectAll ks d = (ups', d')" by (cases "collectAll ks d")
  have "ups' = ups" using collectAll_spec(1) [OF o assms(1) c] ks(2,3) map_inst_at [of ks "pending d"] by simp
  with o c show ?thesis by blast
qed

section \<open>Every step is a move\<close>

lemma collect_wf:
  "collectReady ord d = (ups, d') \<Longrightarrow> range_order ord (pending d) \<Longrightarrow> gm_wf (pending d) \<Longrightarrow> gm_wf (pending d')"
  "collectAll ord d = (ups, d') \<Longrightarrow> range_order ord (pending d) \<Longrightarrow> gm_wf (pending d) \<Longrightarrow> gm_wf (pending d')"
  using collectReady_abs(3) collectAll_spec(2) by (blast, metis gm_wf_Nil)

lemma run_step_wf: "run_step ord s = Some s' \<Longrightarrow> pending_wf s \<Longrightarrow> pending_wf s'"
  by (cases "ds_run s")
    (auto simp: pending_wf_def run_step.simps split: if_splits prod.splits intro: collect_wf)

lemma timer_step_wf: "timer_step k ord s = Some s' \<Longrightarrow> pending_wf s \<Longrightarrow> pending_wf s'"
  by (cases "ds_timers s ! k")
    (auto simp: pending_wf_def timer_step.simps markReady_wf split: if_splits prod.splits intro: collect_wf)

lemma pending_wf_step: "dstep l s = Some s' \<Longrightarrow> pending_wf s \<Longrightarrow> pending_wf s'"
  by (cases l)
    (auto simp: run_step_wf timer_step_wf,
     auto simp: pending_wf_def Let_def cancelPending_pending debounceUpsert_pending
       split: if_splits option.splits prod.splits recv.splits intro: collect_wf)

lemma emit_abs [simp]:
  "dabs (s\<lparr>ds_buf := emitPayload p (ds_buf s), ds_run := r\<rparr>) = (offer (payload_view p) (dabs s))\<lparr>bs_run := abs_run r\<rparr>"
  "dabs (s\<lparr>ds_buf := emitPayload p (ds_buf s), ds_timers := ts\<rparr>) =
     (offer (payload_view p) (dabs s))\<lparr>bs_goroutines := mset (map abs_timer ts)\<rparr>"
  by (simp_all add: dabs_def offer_def dsink.emit_view)

lemma close_abs [simp]:
  "dabs (s\<lparr>ds_buf := closePayloads (ds_buf s), ds_run := r\<rparr>) = (close_chan (dabs s))\<lparr>bs_run := abs_run r\<rparr>"
  by (simp add: dabs_def close_chan_def dsink.close_view)

lemma collect_abs [simp]:
  assumes "pending_wf s" "range_order ord (pending (ds_buf s))" "collectReady ord (ds_buf s) = (ups, d)"
  shows "dabs (s\<lparr>ds_buf := d, ds_run := r\<rparr>) =
      (dabs s)\<lparr>bs_entries := bs_entries (dabs s) |` (- ready_keys (bs_entries (dabs s))), bs_run := abs_run r\<rparr>"
    "dabs (s\<lparr>ds_buf := d, ds_timers := ts\<rparr>) =
      (dabs s)\<lparr>bs_entries := bs_entries (dabs s) |` (- ready_keys (bs_entries (dabs s))),
               bs_goroutines := mset (map abs_timer ts)\<rparr>"
    "batch_of (bs_entries (dabs s)) (ready_keys (bs_entries (dabs s))) ups"
  using collectReady_abs [OF assms(2) assms(1) [unfolded pending_wf_def] assms(3)] collect_frame(1) [OF assms(3)]
  by (simp_all add: dabs_def)

lemma collect_all_abs:
  assumes "pending_wf s" "range_order ord (pending (ds_buf s))" "collectAll ord (ds_buf s) = (ups, d)"
  shows "dabs (s\<lparr>ds_buf := d, ds_run := r\<rparr>) =
      (dabs s)\<lparr>bs_entries := Map.empty,
               bs_armed := stop_timers (bs_entries (dabs s)) (dom (bs_entries (dabs s))) (bs_armed (dabs s)), bs_run := abs_run r\<rparr>"
    "batch_of (bs_entries (dabs s)) (dom (bs_entries (dabs s))) ups"
  using collectAll_abs [OF assms(2) assms(1) [unfolded pending_wf_def] assms(3)] collect_frame(2) [OF assms(3)]
    collectAll_spec [OF assms(2) assms(1) [unfolded pending_wf_def] assms(3)]
  by (simp_all add: dabs_def)

lemma run_step_sound:
  assumes "run_step ord s = Some s'" "pending_wf s"
  shows "bmove ri_ID None (dabs s) (dabs s')"
proof (cases "ds_run s")
  case (REmitDelete i)
  then show ?thesis using assms(1)
    by (auto simp: run_step.simps payload_view_def intro!: bm_run_emit)
next
  case (REmitBatch ups)
  then show ?thesis using assms(1)
    by (auto simp: run_step.simps payload_view_def intro!: bm_run_emit)
next
  case (REmitFinal ups)
  then show ?thesis using assms(1)
    by (auto simp: run_step.simps payload_view_def intro!: bm_run_emit)
next
  case RClose
  then show ?thesis using assms(1) by (auto simp: run_step.simps intro!: bm_close)
next
  case RFlushAll
  obtain ups d where c: "collectAll ord (ds_buf s) = (ups, d)" by (cases "collectAll ord (ds_buf s)")
  with RFlushAll assms(1) have o: "range_order ord (pending (ds_buf s))"
    and s': "s' = s\<lparr>ds_buf := d, ds_run := (if ups = [] then RClose else REmitFinal ups)\<rparr>"
    by (auto simp: run_step.simps split: if_splits)
  note A = collect_all_abs [OF assms(2) o c]
  show ?thesis unfolding s' A(1)
    by (rule bmove_to [OF bm_collect_all [OF _ A(2)]]) (simp_all add: RFlushAll)
qed (use assms(1) in \<open>simp_all add: run_step.simps\<close>)

lemma timer_step_sound:
  assumes "timer_step k ord s = Some s'" "pending_wf s"
  shows "bmove ri_ID None (dabs s) (dabs s')"
proof -
  have k: "k < length (ds_timers s)" using assms(1) by (auto simp: timer_step.simps split: if_splits)
  note at = goroutine_at [OF k, of abs_timer]
  show ?thesis
  proof (cases "ds_timers s ! k")
    case (TFired c)
    then have "s' = s\<lparr>ds_buf := markReady c (ds_buf s), ds_timers := (ds_timers s)[k := TMarked]\<rparr>"
      using assms(1) k by (simp add: timer_step.simps)
    then show ?thesis using TFired at
      by (intro bmove_to [OF bm_mark [of c]]) (simp_all add: dabs_def)
  next
    case TMarked
    have "int (readyCount (ds_buf s)) = int (card (ready_keys (entries_of (pending (ds_buf s)))))"
      using assms(2) by (simp add: readyCount_card pending_wf_def)
    then show ?thesis using TMarked assms(1) k at
      by (intro bmove_to [OF bm_check]) (auto simp: dabs_def timer_step.simps split: if_splits)
  next
    case TFlush
    obtain ups d where c: "collectReady ord (ds_buf s) = (ups, d)" by (cases "collectReady ord (ds_buf s)")
    with TFlush assms(1) k have o: "range_order ord (pending (ds_buf s))"
      and s': "s' = s\<lparr>ds_buf := d, ds_timers := (if ups = [] then drop_nth k (ds_timers s) else (ds_timers s)[k := TEmit ups])\<rparr>"
      by (auto simp: timer_step.simps split: if_splits)
    show ?thesis unfolding s' collect_abs(2) [OF assms(2) o c]
      by (rule bmove_to [OF bm_timer_collect [OF _ collect_abs(3) [OF assms(2) o c]]]) (use at TFlush in simp_all)
  next
    case (TEmit ups)
    then have "s' = s\<lparr>ds_buf := emitPayload \<lparr>Upserts = ups, Deletes = []\<rparr> (ds_buf s), ds_timers := drop_nth k (ds_timers s)\<rparr>"
      using assms(1) k by (simp add: timer_step.simps)
    then show ?thesis using TEmit at
      by (intro bmove_to [OF bm_timer_emit [of ups]]) (simp_all add: payload_view_def)
  qed
qed

lemma dstep_sound:
  assumes "pending_wf s" "dstep l s = Some s'"
  shows "bmove ri_ID (event_change l) (dabs s) (dabs s')"
proof (cases l)
  case (LEvent e)
  show ?thesis
  proof (cases "re_Type e = EventDelete")
    case True
    with assms(2) LEvent show ?thesis
      by (auto simp: dabs_def cancelPending_pending cancelPending_abs split: if_splits
          intro!: bmove_to [OF bm_del])
  next
    case False
    with assms(2) LEvent have "ds_run s = RSelect"
      "s' = s\<lparr>ds_events := ds_events s @ [(tm_now (timers (ds_buf s)), e)], ds_buf := debounceUpsert (re_Instance e) (ds_buf s)\<rparr>"
      by (auto split: if_splits)
    then show ?thesis unfolding LEvent event_change.simps using False
      by (simp, intro bmove_to [OF bm_put [where g = "next_gen (ds_buf s) (ri_ID (re_Instance e))" and
            w = "tm_now (timers (ds_buf s)) + max 0 (sint (debounceWindow (ds_buf s)))"]])
        (simp_all add: dabs_def debounceUpsert_pending debounceUpsert_abs abs_entry_def)
  qed
next
  case (LTick ord)
  obtain ups d where c: "collectReady ord (ds_buf s) = (ups, d)" by (cases "collectReady ord (ds_buf s)")
  with LTick assms(2) have o: "range_order ord (pending (ds_buf s))" and r: "ds_run s = RSelect"
    and s': "s' = s\<lparr>ds_buf := d, ds_run := (if ups = [] then RSelect else REmitBatch ups)\<rparr>"
    by (auto split: if_splits)
  show ?thesis unfolding s' collect_abs(1) [OF assms(1) o c] LTick event_change.simps
    by (rule bmove_to [OF bm_run_collect [OF _ collect_abs(3) [OF assms(1) o c]]]) (simp_all add: r)
next
  case LDone
  with assms(2) show ?thesis
    by (auto simp: dabs_def split: if_splits intro!: bmove_to [OF bm_shutdown])
next
  case (LRun ord)
  with assms show ?thesis by (simp add: run_step_sound)
next
  case (LExpire i)
  with assms(2) obtain c t where e: "expire i (timers (ds_buf s)) = Some (c, t)"
    and s': "s' = s\<lparr>ds_buf := (ds_buf s)\<lparr>timers := t\<rparr>, ds_timers := ds_timers s @ [TFired c]\<rparr>"
    by (auto split: option.splits)
  from expire_mset [OF e] obtain h w where "(h, c, w) \<in># mset (tm_armed (timers (ds_buf s)))" "w \<le> tm_now (timers (ds_buf s))"
    "mset (tm_armed t) = mset (tm_armed (timers (ds_buf s))) - {#(h, c, w)#}" "tm_now t = tm_now (timers (ds_buf s))"
    "tm_next t = tm_next (timers (ds_buf s))" .
  then show ?thesis unfolding LExpire event_change.simps
    by (intro bmove_to [OF bm_expire [of h c w]]) (simp_all add: dabs_def s')
next
  case (LTimer i ord)
  with assms show ?thesis by (simp add: timer_step_sound)
next
  case (LTime dt)
  with assms(2) show ?thesis by (auto simp: dabs_def intro!: bmove_to [OF bm_time [of _ _ dt]])
next
  case LRecv
  with assms(2) show ?thesis
    by (auto simp: dabs_def chan_map_def chan_recv_Received split: recv.splits intro!: bmove_to [OF bm_recv])
qed

section \<open>Every silent move is a step\<close>

lemma goroutine_enabled:
  assumes "abs_timer t \<in># bs_goroutines (dabs s)"
  obtains k where "k < length (ds_timers s)" "ds_timers s ! k = t"
    "mset (map abs_timer (drop_nth k (ds_timers s))) = bs_goroutines (dabs s) - {#abs_timer t#}"
    "\<And>u. mset (map abs_timer ((ds_timers s)[k := u])) = add_mset (abs_timer u) (bs_goroutines (dabs s) - {#abs_timer t#})"
proof -
  obtain t' where "t' \<in> set (ds_timers s)" "abs_timer t' = abs_timer t" using assms by auto
  then obtain k where k: "k < length (ds_timers s)" "abs_timer (ds_timers s ! k) = abs_timer t"
    by (metis in_set_conv_nth)
  have "ds_timers s ! k = t" using k(2) by (cases t) simp_all
  then show ?thesis using that [OF k(1)] goroutine_at [OF k(1), of abs_timer] k(2) by simp
qed

lemma dstep_complete:
  assumes "bmove ri_ID None (dabs s) a" "pending_wf s"
  shows "\<exists>l s'. dstep l s = Some s' \<and> event_change l = None \<and> dabs s' = a"
  using assms(1)
proof (cases rule: bmove.cases)
  case (bm_run_collect ups)
  obtain ord d where c: "range_order ord (pending (ds_buf s))" "collectReady ord (ds_buf s) = (ups, d)"
    using collectReady_reach [of "ds_buf s" ups] assms(2) bm_run_collect(3) by (auto simp: pending_wf_def)
  show ?thesis
    by (rule exI [of _ "LTick ord"])
      (use bm_run_collect c collect_abs(1) [OF assms(2) c] in simp)
next
  case (bm_collect_all ups)
  obtain ord d where c: "range_order ord (pending (ds_buf s))" "collectAll ord (ds_buf s) = (ups, d)"
    using collectAll_reach [of "ds_buf s" ups] assms(2) bm_collect_all(3) by (auto simp: pending_wf_def)
  show ?thesis
    by (rule exI [of _ "LRun ord"])
      (use bm_collect_all c collect_all_abs(1) [OF assms(2) c] in \<open>simp add: run_step.simps\<close>)
next
  case (bm_run_emit p r)
  then show ?thesis
    by (intro exI [of _ "LRun []"], cases "ds_run s") (auto simp: run_step.simps payload_view_def)
next
  case bm_shutdown
  then show ?thesis by (intro exI [of _ LDone]) (simp add: dabs_def)
next
  case bm_close
  then show ?thesis by (intro exI [of _ "LRun []"]) (simp add: run_step.simps)
next
  case (bm_expire h c w)
  then obtain i t where e: "expire i (timers (ds_buf s)) = Some (c, t)"
    "mset (tm_armed t) = mset (tm_armed (timers (ds_buf s))) - {#(h, c, w)#}"
    "tm_now t = tm_now (timers (ds_buf s))" "tm_next t = tm_next (timers (ds_buf s))"
    using expire_enabled [of h c w "timers (ds_buf s)"] by auto
  then show ?thesis using bm_expire by (intro exI [of _ "LExpire i"]) (simp add: dabs_def)
next
  case (bm_mark c)
  then obtain k where "k < length (ds_timers s)" "ds_timers s ! k = TFired c"
    "mset (map abs_timer ((ds_timers s)[k := TMarked])) = add_mset Marked (bs_goroutines (dabs s) - {#Fired c#})"
    using goroutine_enabled [of "TFired c" s] by (metis abs_timer.simps(1,2))
  with bm_mark(1) show ?thesis
    by (intro exI [of _ "LTimer k []"]) (simp add: timer_step.simps dabs_def)
next
  case bm_check
  then obtain k where k: "k < length (ds_timers s)" "ds_timers s ! k = TMarked"
    "mset (map abs_timer (drop_nth k (ds_timers s))) = bs_goroutines (dabs s) - {#Marked#}"
    "mset (map abs_timer ((ds_timers s)[k := TFlush])) = add_mset Flushing (bs_goroutines (dabs s) - {#Marked#})"
    using goroutine_enabled [of TMarked s] by (metis abs_timer.simps(2,3))
  have "readyCount (ds_buf s) = card (ready_keys (entries_of (pending (ds_buf s))))"
    using assms(2) by (simp add: readyCount_card pending_wf_def)
  with k bm_check(1) show ?thesis
    by (intro exI [of _ "LTimer k []"]) (simp add: timer_step.simps dabs_def)
next
  case (bm_timer_collect ups)
  obtain ord d where c: "range_order ord (pending (ds_buf s))" "collectReady ord (ds_buf s) = (ups, d)"
    using collectReady_reach [of "ds_buf s" ups] assms(2) bm_timer_collect(3) by (auto simp: pending_wf_def)
  obtain k where k: "k < length (ds_timers s)" "ds_timers s ! k = TFlush"
    "mset (map abs_timer (drop_nth k (ds_timers s))) = bs_goroutines (dabs s) - {#Flushing#}"
    "mset (map abs_timer ((ds_timers s)[k := TEmit ups])) = add_mset (Emitting ups) (bs_goroutines (dabs s) - {#Flushing#})"
    using goroutine_enabled [of TFlush s] bm_timer_collect(2) by (metis abs_timer.simps(3,4))
  show ?thesis
    by (rule exI [of _ "LTimer k ord"])
      (use k c collect_abs(2) [OF assms(2) c] bm_timer_collect(1) in \<open>simp add: timer_step.simps\<close>)
next
  case (bm_timer_emit ups)
  then obtain k where "k < length (ds_timers s)" "ds_timers s ! k = TEmit ups"
    "mset (map abs_timer (drop_nth k (ds_timers s))) = bs_goroutines (dabs s) - {#Emitting ups#}"
    using goroutine_enabled [of "TEmit ups" s] by (metis abs_timer.simps(4))
  with bm_timer_emit(1) show ?thesis
    by (intro exI [of _ "LTimer k []"]) (simp add: timer_step.simps payload_view_def)
next
  case (bm_time dt)
  then show ?thesis by (intro exI [of _ "LTime dt"]) (simp add: dabs_def)
next
  case (bm_recv p ps)
  then obtain q qs where "ch_buf (Payloads (ds_buf s)) = q # qs" "map payload_view qs = ps"
    by (auto simp: map_eq_Cons_conv)
  with bm_recv(1) show ?thesis
    by (intro exI [of _ LRecv]) (simp add: chan_recv_def dabs_def chan_map_def)
qed

interpretation dimpl: buffer_impl ri_ID dstep dabs event_change pending_wf
proof
  show "\<exists>s'. dstep l s = Some s'" if "event_change l = Some c" "bs_run (dabs s) = Selecting" for l c s
    using that by (cases l) (auto simp: Let_def)
qed (blast intro: pending_wf_step dstep_sound dstep_complete)+

end
