(* ===== verification/Debounce_Replica.thy ===== *)
theory Debounce_Replica
  imports Debounce_Refinement
begin

text \<open>
  The instance pipeline in its own terms: the state of the cluster the events describe, the replica
  of a receiver, the batches on their way, and the calm schedules, on which the buffer keeps the receiver up to
  date. The results come from the specification through the refinement.
\<close>

section \<open>The specification\<close>

definition apply_event :: "ResourceEvent \<Rightarrow> (string \<rightharpoonup> ResourceInstance) \<Rightarrow> string \<rightharpoonup> ResourceInstance" where
  "apply_event e m =
     (if re_Type e = EventDelete then m(ri_ID (re_Instance e) := None)
      else m(ri_ID (re_Instance e) \<mapsto> re_Instance e))"

definition cluster_state :: "ResourceEvent list \<Rightarrow> string \<rightharpoonup> ResourceInstance" where
  "cluster_state es = fold apply_event es Map.empty"

definition replica :: "SyncPayload list \<Rightarrow> string \<rightharpoonup> ResourceInstance" where
  "replica ps = fold (\<lambda>p. apply_changes ri_ID (Upserts p) (Deletes p)) ps Map.empty"

definition last_event :: "(int \<times> ResourceEvent) list \<Rightarrow> string \<Rightarrow> (int \<times> ResourceEvent) option" where
  "last_event evs i = find (\<lambda>(t, e). ri_ID (re_Instance e) = i) (rev evs)"

section \<open>The batches on their way\<close>

text \<open>The batches collected under the lock and not yet emitted, and those of them that timer goroutines hold.\<close>

definition in_flight :: "dsys \<Rightarrow> ResourceInstance list set" where
  "in_flight s =
     {ups. ds_run s = REmitBatch ups \<or> ds_run s = REmitFinal ups \<or> TEmit ups \<in> set (ds_timers s)}"

fun timer_batch :: "timer_pc \<Rightarrow> ResourceInstance list" where
  "timer_batch (TEmit ups) = ups"
| "timer_batch _ = []"

definition held_batches :: "dsys \<Rightarrow> ResourceInstance list" where
  "held_batches s = concat (map timer_batch (ds_timers s))"

text \<open>The schedules on which the buffer keeps the receiver up to date: the payload channel is never
  full, an event for a resource that a timer goroutine holds in a batch repeats what the batch says of it, and \<open>Run\<close> does
  not close the channel while a timer goroutine holds a batch.\<close>

definition calm :: "dsys \<Rightarrow> dsys \<Rightarrow> bool" where
  "calm s s' \<longleftrightarrow>
     ch_dropped (Payloads (ds_buf s')) = ch_dropped (Payloads (ds_buf s)) \<and>
     (\<forall>(t, e) \<in> set (drop (length (ds_events s)) (ds_events s')). \<forall>r \<in> set (held_batches s).
        ri_ID r = ri_ID (re_Instance e) \<longrightarrow> re_Type e \<noteq> EventDelete \<and> r = re_Instance e) \<and>
     (payloadsClosed (ds_buf s') \<longrightarrow> held_batches s = [])"

definition calm_step :: "dlabel \<Rightarrow> dsys \<Rightarrow> dsys option" where
  "calm_step = calmly calm dstep"

section \<open>Under the abstraction\<close>

lemma replica_view: "replica ps = received_state ri_ID (map payload_view ps)"
  by (simp add: replica_def received_state_def payload_view_def fold_map comp_def)

lemma cluster_state_view: "cluster_state es = changed_state ri_ID (map change_of es)"
proof -
  have "apply_event = (\<lambda>e. apply_change ri_ID (change_of e))"
    by (intro ext) (simp add: apply_event_def)
  then show ?thesis by (simp add: cluster_state_def changed_state_def fold_map comp_def del: change_of.simps)
qed

lemma log_view: "map snd (bs_log (dabs s)) = map change_of (map snd (ds_events s))"
  by (simp add: case_prod_beta')

lemma last_event_view:
  "last_change ri_ID (bs_log (dabs s)) i = map_option (\<lambda>(t, e). (t, change_of e)) (last_event (ds_events s) i)"
proof -
  have key: "change_key ri_ID (change_of e) = ri_ID (re_Instance e)" for e by simp
  have "find (\<lambda>(t, c). change_key ri_ID c = i) (map (\<lambda>(t, e). (t, change_of e)) l) =
      map_option (\<lambda>(t, e). (t, change_of e)) (find (\<lambda>(t, e). ri_ID (re_Instance e) = i) l)"
      for l :: "(int \<times> ResourceEvent) list"
    by (induction l) (auto simp: key simp del: change_of.simps)
  then show ?thesis by (simp add: last_change_def last_event_def rev_map)
qed

lemma emitting_view: "Emitting ups \<in># bs_goroutines (dabs s) \<longleftrightarrow> TEmit ups \<in> set (ds_timers s)"
  by (simp add: image_iff eq_commute [of "Emitting ups"])

lemma in_flight_view: "bs_in_flight (dabs s) = in_flight s"
  by (simp add: bs_in_flight_def in_flight_def emitting_view del: dabs_sel(9))

lemma held_view: "timer_held (dabs s) = set (held_batches s)"
proof -
  have "v \<in> set (timer_batch t) \<longleftrightarrow> (\<exists>ups. t = TEmit ups \<and> v \<in> set ups)" for v t by (cases t) simp_all
  then show ?thesis by (auto simp: timer_held_def held_batches_def emitting_view simp del: dabs_sel(9))
qed

lemma inj_payload_view: "inj payload_view"
  by (rule injI) (simp add: payload_view_def)

lemma payloads_eq_iff: "map payload_view ps = map payload_view qs \<longleftrightarrow> ps = qs"
  by (simp add: inj_map_eq_map [OF inj_payload_view])

lemma buffer_events: "dstep l s = Some s' \<Longrightarrow> \<forall>e. l \<noteq> LEvent e \<Longrightarrow> ds_events s' = ds_events s"
  by (cases l)
    (auto simp: run_step.simps timer_step.simps split: if_splits option.splits prod.splits recv.splits
      run_pc.splits timer_pc.splits)

lemma calm_view:
  assumes "dstep l s = Some s'"
  shows "calm s s' \<longleftrightarrow> calm_move ri_ID (event_change l) (dabs s) (dabs s')"
proof (cases "\<exists>e. l = LEvent e")
  case True
  then obtain e where e: "l = LEvent e" by blast
  then have "drop (length (ds_events s)) (ds_events s') = [(tm_now (timers (ds_buf s)), e)]"
    using assms by (auto simp: Let_def split: if_splits)
  then show ?thesis
    by (auto simp: calm_def calm_move_def e held_view payloads_eq_iff) (metis imageI)
next
  case False
  then have "ds_events s' = ds_events s" "event_change l = None"
    using buffer_events [OF assms] by (auto, cases l, auto)
  then show ?thesis by (simp add: calm_def calm_move_def held_view payloads_eq_iff)
qed

interpretation dconverge: calm_buffer_impl ri_ID dstep dabs event_change pending_wf calm
  by unfold_locales (rule calm_view)

section \<open>Consequences\<close>

lemma silent_events: "run_steps dstep ls s = Some s' \<Longrightarrow> dimpl.silent ls \<Longrightarrow> ds_events s' = ds_events s"
proof (erule dimpl.silent_history, assumption)
  show "ds_events s' = ds_events s" if "dstep l s = Some s'" "event_change l = None" for l s s'
    using buffer_events [OF that(1)] that(2) by (cases l) auto
qed

lemma fresh_buffer: "fresh (dabs (dsys_init (NewDebounceBuffer cfg)))" "pending_wf (dsys_init (NewDebounceBuffer cfg))"
  by (auto simp: fresh_def pending_wf_def dsys_init_def NewDebounceBuffer_def intro: exI [of _ 100])

lemmas reach_good = dimpl.reach_good [OF _ fresh_buffer(2,1)]

lemma good_channel:
  assumes "good ri_ID (dabs s)"
  shows "chan_ok (Payloads (ds_buf s))" "\<not> ch_panic (Payloads (ds_buf s))"
    "ch_closed (Payloads (ds_buf s)) \<longleftrightarrow> ds_run s = RDone"
proof -
  have inv: "chan_inv (dabs s)" using assms by (simp add: good_def)
  then have "suffix (map payload_view (ch_buf (Payloads (ds_buf s)))) (map payload_view (ch_sent (Payloads (ds_buf s))))"
    by (simp add: chan_inv_def bsink.sink_ok_def chan_ok_def)
  then have "suffix (ch_buf (Payloads (ds_buf s))) (ch_sent (Payloads (ds_buf s)))"
    by (rule suffix_map_inj [OF inj_payload_view])
  with inv show "chan_ok (Payloads (ds_buf s))" "\<not> ch_panic (Payloads (ds_buf s))"
    "ch_closed (Payloads (ds_buf s)) \<longleftrightarrow> ds_run s = RDone"
    by (auto simp: chan_inv_def bsink.sink_ok_def chan_ok_def)
qed

lemmas reach_converges = dconverge.calm_system.reach_keeps [OF _ dconverge.init_converges [OF fresh_buffer(2,1)], folded calm_step_def]

lemma up_to_date_view:
  "received_state ri_ID (ch_sent (bs_chan (dabs s))) = changed_state ri_ID (map snd (bs_log (dabs s))) \<longleftrightarrow>
   replica (ch_sent (Payloads (ds_buf s))) = cluster_state (map snd (ds_events s))"
  by (simp only: replica_view cluster_state_view log_view dabs_sel(6) chan_map_sel)

lemma idle_replica:
  assumes "dconverge.converges s" "ds_run s = RSelect \<or> ds_run s = RDone" "held_batches s = []" "pending (ds_buf s) = []"
  shows "replica (ch_sent (Payloads (ds_buf s))) = cluster_state (map snd (ds_events s))"
  using assms idle_state [of ri_ID "dabs s"] unfolding up_to_date_view
  by (simp add: dconverge.converges_def held_view)

lemma converged_replica:
  assumes "dconverge.converges s" "ds_run s = RDone"
  shows "replica (ch_sent (Payloads (ds_buf s))) = cluster_state (map snd (ds_events s))"
  using assms returned_state [of ri_ID "dabs s"] unfolding up_to_date_view
  by (simp add: dconverge.converges_def)

end
