(* ===== verification/Pipeline.thy ===== *)
theory Pipeline
  imports Rest_Properties Api_Server Debounce_Replica
begin

text \<open>
  The program (\<open>src/cmd/main.go\<close>): which parts \<open>main\<close> creates from the configuration and adds to the manager,
  when it exits instead, and the loop that feeds the payloads of a buffer to the REST client. The manager,
  its constructor and its checks are not under \<open>src/\<close>: whether each call fails is an argument. The logging
  set-up is not modelled.
\<close>

section \<open>Runnables\<close>

text \<open>What the manager is given to run: the wrapper types of \<open>main.go\<close> and the API server, with the
  objects they hold; a part that two runnables share stands in both.\<close>

datatype runnable =
    WatcherRunnable Watcher
  | DebouncerRunnable DebounceBuffer Watcher
  | SenderRunnable RESTClient DebounceBuffer
  | CrdDebouncerRunnable CrdDebounceBuffer Watcher
  | CrdSenderRunnable RESTClient CrdDebounceBuffer
  | ApiServerRunnable string Watcher

definition wrapWatcher :: "Watcher \<Rightarrow> runnable" where
  "wrapWatcher w = WatcherRunnable w"

definition wrapDebouncer :: "DebounceBuffer \<Rightarrow> Watcher \<Rightarrow> runnable" where
  "wrapDebouncer d w = DebouncerRunnable d w"

definition wrapSender :: "RESTClient \<Rightarrow> DebounceBuffer \<Rightarrow> runnable" where
  "wrapSender c d = SenderRunnable c d"

definition wrapCrdDebouncer :: "CrdDebounceBuffer \<Rightarrow> Watcher \<Rightarrow> runnable" where
  "wrapCrdDebouncer d w = CrdDebouncerRunnable d w"

definition wrapCrdSender :: "RESTClient \<Rightarrow> CrdDebounceBuffer \<Rightarrow> runnable" where
  "wrapCrdSender c d = CrdSenderRunnable c d"

section \<open>The flags\<close>

text \<open>The flags of \<open>main\<close> with their defaults, and the options of the manager they give. Parsing the command line is the
  library's, so the parsed flags are an argument of \<open>main_program\<close>; the flags of the logger are not modelled.\<close>

record flags =
  metricsAddr :: string
  probeAddr :: string
  enableLeaderElection :: bool
  metricsCertPath :: string

definition flag_defaults :: flags where
  "flag_defaults = \<lparr>metricsAddr = ''0'', probeAddr = '':8081'', enableLeaderElection = False, metricsCertPath = ''''\<rparr>"

record ManagerOptions =
  mo_MetricsBindAddress :: string
  mo_SecureServing :: bool
  mo_CertDir :: string
  mo_HealthProbeBindAddress :: string
  mo_LeaderElection :: bool
  mo_LeaderElectionID :: string

definition manager_options :: "flags \<Rightarrow> ManagerOptions" where
  "manager_options fl =
     \<lparr>mo_MetricsBindAddress = metricsAddr fl, mo_SecureServing = (metricsCertPath fl \<noteq> []), mo_CertDir = metricsCertPath fl,
      mo_HealthProbeBindAddress = probeAddr fl, mo_LeaderElection = enableLeaderElection fl,
      mo_LeaderElectionID = ''57d01317.vectordbsync.io''\<rparr>"

section \<open>main\<close>

text \<open>The failures of the calls \<open>main\<close> makes. \<open>ctrl.GetConfigOrDie\<close> ends the process itself, with a message
  of its own.\<close>

record failures =
  getConfigErr :: bool
  newManagerErr :: "ManagerOptions \<Rightarrow> bool"
  dynamicErr :: "string option"
  discoveryErr :: "string option"
  addErr :: "runnable \<Rightarrow> bool"
  healthzErr :: bool
  readyzErr :: bool
  startErr :: bool

datatype outcome =
    Exit1 string "runnable list"   \<comment> \<open>\<open>os.Exit(1)\<close>, with what had been added\<close>
  | Ran "runnable list"            \<comment> \<open>the manager ran these and stopped without an error\<close>

text \<open>\<open>mgr.Add\<close> for a list of runnables in order, each followed by the exit of its message.\<close>

fun add_all :: "(runnable \<Rightarrow> bool) \<Rightarrow> (runnable \<times> string) list \<Rightarrow> runnable list \<Rightarrow> outcome + runnable list" where
  "add_all fails [] added = Inr added"
| "add_all fails ((r, msg) # rest) added =
     (if fails r then Inl (Exit1 msg added) else add_all fails rest (added @ [r]))"

definition main_runnables :: "Config \<Rightarrow> Watcher \<Rightarrow> (runnable \<times> string) list" where
  "main_runnables cfg watcher =
     (let debouncer = NewDebounceBuffer cfg; restClient = New_client (InstancesEndpoint cfg) [];
          crdDebouncer = NewCrdDebounceBuffer cfg; crdClient = New_client (CapabilitiesEndpoint cfg) []
      in [(wrapWatcher watcher, ''Failed to add watcher to manager''),
          (wrapDebouncer debouncer watcher, ''Failed to add debouncer to manager''),
          (wrapSender restClient debouncer, ''Failed to add REST sender to manager'')] @
         (if CapabilitiesEndpoint cfg \<noteq> []
          then [(wrapCrdDebouncer crdDebouncer watcher, ''Failed to add CRD debouncer to manager''),
                (wrapCrdSender crdClient crdDebouncer, ''Failed to add CRD sender to manager'')]
          else []) @
         [(ApiServerRunnable (APIBindAddress cfg) watcher, ''Failed to add API server to manager'')])"

definition main_program :: "(string \<Rightarrow> string) \<Rightarrow> flags \<Rightarrow> environment \<Rightarrow> failures \<Rightarrow> outcome" where
  "main_program ulower fl env f =
     (let cfg = Load ulower env in
      if getConfigErr f then Exit1 ''unable to get kubeconfig'' []
      else if newManagerErr f (manager_options fl) then Exit1 ''Failed to start manager'' []
      else (case NewWatcher ulower (dynamicErr f) (discoveryErr f) cfg of
              Inl err \<Rightarrow> Exit1 ''Failed to create resource watcher'' []
            | Inr watcher \<Rightarrow>
                (case add_all (addErr f) (main_runnables cfg watcher) [] of
                   Inl stop \<Rightarrow> stop
                 | Inr added \<Rightarrow>
                     if healthzErr f then Exit1 ''Failed to set up health check'' added
                     else if readyzErr f then Exit1 ''Failed to set up ready check'' added
                     else if startErr f then Exit1 ''Failed to run manager'' added
                     else Ran added)))"

section \<open>The sender loop\<close>

text \<open>
  \<open>for payload := range payloads\<close>: the loop receives until the channel is closed and empty. Before payload
  number \<open>n\<close> it looks at the context (\<open>cancelled n\<close>); a cancelled one is replaced by a fresh context of ten
  seconds for that payload. \<open>send\<close> is \<open>Send\<close> in the world of that payload under the
  chosen context. An error is logged and the loop goes on. \<open>LoopWaits\<close> is a loop that waits for a payload.
\<close>

datatype send_context = LiveContext | DrainContext

datatype loop_end = LoopReturned | LoopWaits

function runSenderLoop ::
    "(send_context \<Rightarrow> nat \<Rightarrow> 'p \<Rightarrow> 'r) \<Rightarrow> (nat \<Rightarrow> bool) \<Rightarrow> nat \<Rightarrow> 'p chan \<Rightarrow>
     (send_context \<times> 'p \<times> 'r) list \<Rightarrow> loop_end \<times> (send_context \<times> 'p \<times> 'r) list" where
  "runSenderLoop send cancelled n c sent =
     (case chan_recv c of
        RecvClosed \<Rightarrow> (LoopReturned, sent)
      | RecvBlocks \<Rightarrow> (LoopWaits, sent)
      | Received payload c' \<Rightarrow>
          let ctx = (if cancelled n then DrainContext else LiveContext)
          in runSenderLoop send cancelled (Suc n) c' (sent @ [(ctx, payload, send ctx n payload)]))"
  by pat_completeness auto
termination
  by (relation "measure (\<lambda>(_, _, _, c, _). length (ch_buf c))") (auto simp: chan_recv_Received)

declare runSenderLoop.simps [simp del]

text \<open>The \<open>Start\<close> methods of the two sender runnables: the loop over the payloads of the buffer, with \<open>Send\<close> of the
  client. \<open>worlds ctx n\<close> is what payload number \<open>n\<close> meets under the context \<open>ctx\<close>. They return no error.\<close>

definition Start_sender ::
    "RESTClient \<Rightarrow> (send_context \<Rightarrow> nat \<Rightarrow> world) \<Rightarrow> (nat \<Rightarrow> bool) \<Rightarrow> DebounceBuffer \<Rightarrow>
     loop_end \<times> (send_context \<times> SyncPayload \<times> (send_error option \<times> json action list) option) list" where
  "Start_sender c worlds cancelled debouncer =
     runSenderLoop (\<lambda>ctx n p. Send IsEmpty (\<lambda>p. Inr (json_SyncPayload p)) c (worlds ctx n) (Payload_of p))
       cancelled 0 (Payloads debouncer) []"

definition Start_crdSender ::
    "RESTClient \<Rightarrow> (send_context \<Rightarrow> nat \<Rightarrow> world) \<Rightarrow> (nat \<Rightarrow> bool) \<Rightarrow> CrdDebounceBuffer \<Rightarrow>
     loop_end \<times> (send_context \<times> CrdSyncPayload \<times> (send_error option \<times> json action list) option) list" where
  "Start_crdSender c worlds cancelled debouncer =
     runSenderLoop (\<lambda>ctx n p. Send IsEmpty_crd (\<lambda>p. Inr (json_CrdSyncPayload p)) c (worlds ctx n) (Payload_of p))
       cancelled 0 (crd_Payloads debouncer) []"

end
