(* ===== verification/Debounce_Properties.thy ===== *)
theory Debounce_Properties
  imports Debounce_Replica
begin

text \<open>
  The properties of the instance debounce buffer over every interleaving of its goroutines,
  and the schedules that show where the buffer departs from its documentation.
\<close>

section \<open>Sample schedules\<close>

definition sample_instance :: "string \<Rightarrow> string \<Rightarrow> ResourceInstance" where
  "sample_instance i ver =
     \<lparr>ri_ID = i, ri_Namespace = ''default'', ri_Name = i, ri_Kind = ''Deployment'', ri_APIVersion = ''apps/v1'',
      ri_APIGroup = ''apps'', ri_Labels = Some [(''version'', ver)], ri_Annotations = None, ri_CreatedAt = []\<rparr>"

definition sample_config :: "int \<Rightarrow> Config" where
  "sample_config batch =
     \<lparr>InstancesEndpoint = [], CapabilitiesEndpoint = [], DebounceWindow = 10, BatchFlushInterval = 5,
      BatchMaxSize = batch, ResyncInterval = 0, WatchResourceTypes = [], ExcludeResourceTypes = [],
      APIBindAddress = [], LogLevel = []\<rparr>"

definition sample_start :: "int \<Rightarrow> dsys" where
  "sample_start batch = dsys_init (NewDebounceBuffer (sample_config batch))"

definition add_event :: "string \<Rightarrow> string \<Rightarrow> ResourceEvent" where
  "add_event i ver = \<lparr>re_Type = EventAdd, re_Instance = sample_instance i ver\<rparr>"

definition delete_event :: "string \<Rightarrow> ResourceEvent" where
  "delete_event i = \<lparr>re_Type = EventDelete, re_Instance = sample_instance i []\<rparr>"

text \<open>Two resources are added, one is updated within its window, a timer fires and its
  goroutine flushes, the other resource is deleted, and \<open>Run\<close> shuts down.\<close>

definition orderly :: "dlabel list" where
  "orderly =
     [LEvent (add_event ''x'' ''1''), LEvent (add_event ''y'' ''1''), LTime 5,
      LEvent (add_event ''x'' ''2''), LTime 5, LExpire 0, LTimer 0 [], LTimer 0 [],
      LTimer 0 [''x'', ''y''], LTimer 0 [], LRecv, LEvent (delete_event ''y''), LRun [],
      LDone, LRun [''x''], LRun [], LRun []]"

text \<open>A timer goroutine collects a resource; before it emits the batch the resource is
  deleted.\<close>

definition late_upsert :: "dlabel list" where
  "late_upsert =
     [LEvent (add_event ''x'' ''1''), LTime 10, LExpire 0, LTimer 0 [], LTimer 0 [], LTimer 0 [''x''],
      LEvent (delete_event ''x''), LRun [], LTimer 0 []]"

text \<open>A timer expires, the resource is deleted and added again, and only then the goroutine
  of the first timer takes the lock.\<close>

definition stale_timer :: "dlabel list" where
  "stale_timer =
     [LEvent (add_event ''x'' ''1''), LTime 10, LExpire 0, LEvent (delete_event ''x''), LRun [],
      LEvent (add_event ''x'' ''2''), LTimer 0 []]"

text \<open>\<open>Run\<close> shuts down between the collect and the emit of a timer goroutine.\<close>

definition shutdown_race :: "dlabel list" where
  "shutdown_race =
     [LEvent (add_event ''x'' ''1''), LTime 10, LExpire 0, LTimer 0 [], LTimer 0 [], LTimer 0 [''x''],
      LDone, LRun [], LRun [], LTimer 0 []]"

section \<open>The entries a flush takes\<close>

lemma ready_entries:
  assumes "gm_wf m"
  shows "map (inst_at m) (filter (is_ready m) (gm_keys m)) =
    map (\<lambda>(_, x). pc_instance x) (filter (\<lambda>(_, x). pc_ready x) m)"
proof -
  have "map (inst_at m) (filter (is_ready m) (map fst xs)) =
      map (\<lambda>(_, x). pc_instance x) (filter (\<lambda>(_, x). pc_ready x) xs)" if "set xs \<subseteq> set m" for xs
    using that
  proof (induction xs)
    case (Cons kx xs)
    obtain k x where kx: "kx = (k, x)" by (cases kx)
    with Cons.prems have "gm_get m k = Some x" using gm_get_Some_iff [OF assms] by simp
    with Cons kx show ?case by (simp add: is_ready_def inst_at_def)
  qed simp
  then show ?thesis by (simp add: gm_keys_def)
qed

section \<open>The methods are uninterrupted schedules\<close>

lemma handleEvent_schedule:
  assumes "ds_run s = RSelect"
  shows "\<exists>ls. run_steps dstep ls s =
    Some (s\<lparr>ds_buf := handleEvent e (ds_buf s),
            ds_events := ds_events s @ [(tm_now (timers (ds_buf s)), e)]\<rparr>)"
proof (cases "re_Type e = EventDelete")
  case True
  then show ?thesis using assms
    by (intro exI [of _ "[LEvent e, LRun []]"]) (simp add: handleEvent_def run_step.simps)
next
  case False
  then show ?thesis using assms by (intro exI [of _ "[LEvent e]"]) (simp add: handleEvent_def)
qed

lemma flushPending_schedule:
  assumes "ds_run s = RSelect" "range_order ord (pending (ds_buf s))"
  shows "\<exists>ls. run_steps dstep ls s = Some (s\<lparr>ds_buf := flushPending ord (ds_buf s)\<rparr>)"
proof -
  obtain ups d where c: "collectReady ord (ds_buf s) = (ups, d)" by (cases "collectReady ord (ds_buf s)")
  show ?thesis
  proof (cases "ups = []")
    case True
    then show ?thesis using assms c
      by (intro exI [of _ "[LTick ord]"]) (simp add: flushPending_def)
  next
    case False
    then show ?thesis using assms c
      by (intro exI [of _ "[LTick ord, LRun []]"]) (simp add: flushPending_def run_step.simps)
  qed
qed

lemma shutdown_schedule:
  assumes "ds_run s = RSelect" "range_order ord (pending (ds_buf s))"
  shows "\<exists>ls. run_steps dstep ls s =
    Some (s\<lparr>ds_buf := closePayloads (flushAllPending ord (ds_buf s)), ds_run := RDone\<rparr>)"
proof -
  obtain ups d where c: "collectAll ord (ds_buf s) = (ups, d)" by (cases "collectAll ord (ds_buf s)")
  show ?thesis
  proof (cases "ups = []")
    case True
    then show ?thesis using assms c
      by (intro exI [of _ "[LDone, LRun ord, LRun []]"]) (simp add: flushAllPending_def run_step.simps)
  next
    case False
    then show ?thesis using assms c
      by (intro exI [of _ "[LDone, LRun ord, LRun [], LRun []]"])
        (simp add: flushAllPending_def run_step.simps)
  qed
qed

lemma timerFunc_schedule:
  assumes "ds_timers s = ts @ [TFired c]" "range_order ord (pending (markReady c (ds_buf s)))"
  shows "\<exists>ls. run_steps dstep ls s = Some (s\<lparr>ds_buf := timerFunc ord c (ds_buf s), ds_timers := ts\<rparr>)"
proof -
  let ?d = "markReady c (ds_buf s)" and ?k = "length ts"
  obtain ups d where col: "collectReady ord ?d = (ups, d)" by (cases "collectReady ord ?d")
  have k: "?k < length (ds_timers s)" "ds_timers s ! ?k = TFired c" using assms(1) by simp_all
  have upd: "(ds_timers s)[?k := x] = ts @ [x]" for x using assms(1) by simp
  have drp: "drop_nth ?k (ts @ [x]) = ts" for x by (simp add: drop_nth_def)
  consider "int (readyCount ?d) < maxBatchSize ?d" | "maxBatchSize ?d \<le> int (readyCount ?d)" "ups = []"
    | "maxBatchSize ?d \<le> int (readyCount ?d)" "ups \<noteq> []" by linarith
  then show ?thesis
  proof cases
    case 1
    then show ?thesis using k
      by (intro exI [of _ "[LTimer ?k [], LTimer ?k []]"])
        (simp add: timer_step.simps upd drp timerFunc_def checkFlush_def)
  next
    case 2
    then show ?thesis using k col assms(2)
      by (intro exI [of _ "[LTimer ?k [], LTimer ?k [], LTimer ?k ord]"])
        (simp add: timer_step.simps upd drp timerFunc_def checkFlush_def flushPending_def)
  next
    case 3
    then show ?thesis using k col assms(2)
      by (intro exI [of _ "[LTimer ?k [], LTimer ?k [], LTimer ?k ord, LTimer ?k []]"])
        (simp add: timer_step.simps upd drp timerFunc_def checkFlush_def flushPending_def)
  qed
qed

section \<open>Properties\<close>

lemma orderly_calm:
  "ends_in calm_step orderly (sample_start 1)
     (\<lambda>s. ds_run s = RDone \<and>
        map snd (ds_events s) =
          [add_event ''x'' ''1'', add_event ''y'' ''1'', add_event ''x'' ''2'', delete_event ''y''])"
  by code_simp

text \<open>The shutdown is final: a schedule that ends with \<open>Run\<close> in its select has none.\<close>

lemma shutdown_final:
  "dstep l s = Some s' \<Longrightarrow> running (abs_run (ds_run s')) \<Longrightarrow> l \<noteq> LDone \<and> running (abs_run (ds_run s))"
  by (cases l)
    (auto simp: run_step.simps timer_step.simps Let_def split: if_splits option.splits prod.splits recv.splits
      run_pc.splits timer_pc.splits)

lemma no_shutdown:
  "run_steps dstep ls s = Some s' \<Longrightarrow> running (abs_run (ds_run s')) \<Longrightarrow> LDone \<notin> set ls \<and> running (abs_run (ds_run s))"
proof (induction ls arbitrary: s)
  case (Cons l ls)
  then obtain u where "dstep l s = Some u" "run_steps dstep ls u = Some s'"
    by (auto split: option.splits simp del: dstep.simps)
  with Cons.IH [of u] Cons.prems(2) shutdown_final show ?case by auto
qed simp

text \<open>C5. No pending upsert is stuck: from every reachable state in which \<open>Run\<close> waits in its
  select, the buffer and its sender alone (timers, goroutines, the flush tick and receives of the sender, without a
  further event and without the shutdown and its flush) can go on until \<open>Run\<close> waits again and exactly one more payload has been
  sent, which contains that very instance. No interleaving of timer goroutines, deletes and flushes loses the wake-up of an
  entry.\<close>

theorem pending_never_stuck:
  assumes "reach dstep (dsys_init (NewDebounceBuffer cfg)) s"
    and "ds_run s = RSelect" "gm_get (pending (ds_buf s)) i = Some x"
  shows "\<exists>ls s' ups. run_steps dstep ls s = Some s' \<and> LDone \<notin> set ls \<and> ds_run s' = RSelect \<and> ds_events s' = ds_events s \<and>
    ch_sent (Payloads (ds_buf s')) = ch_sent (Payloads (ds_buf s)) @ [\<lparr>Upserts = ups, Deletes = []\<rparr>] \<and> pc_instance x \<in> set ups"
proof -
  have "bs_entries (dabs s) i = Some (abs_entry x)" using assms(3) by (simp add: entries_of_def)
  then obtain ls s' ups where s': "run_steps dstep ls s = Some s'" "dimpl.silent ls" "ds_run s' = RSelect"
    and ups: "pc_instance x \<in> set ups" "ch_sent (bs_chan (dabs s')) = ch_sent (bs_chan (dabs s)) @ [(ups, [])]"
    using dimpl.pending_flushes [OF reach_good [OF assms(1)] dimpl.reach_wf [OF assms(1) fresh_buffer(2)], of i]
      assms(2) by auto
  have "map payload_view (ch_sent (Payloads (ds_buf s'))) =
      map payload_view (ch_sent (Payloads (ds_buf s)) @ [\<lparr>Upserts = ups, Deletes = []\<rparr>])"
    using ups(2) by (simp add: payload_view_def)
  then have "ch_sent (Payloads (ds_buf s')) = ch_sent (Payloads (ds_buf s)) @ [\<lparr>Upserts = ups, Deletes = []\<rparr>]"
    unfolding payloads_eq_iff .
  moreover have "LDone \<notin> set ls" using no_shutdown [OF s'(1)] s'(3) by simp
  ultimately show ?thesis using s' silent_events [OF s'(1,2)] ups(1) by blast
qed

lemma stale_timer_ends:
  "ends_in dstep stale_timer (sample_start 50)
     (\<lambda>s. ds_run s = RSelect \<and>
        map_option pc_instance (gm_get (pending (ds_buf s)) ''x'') = Some (sample_instance ''x'' ''2''))"
  by code_simp

theorem pending_never_stuck_witness:
  "\<exists>s ls s' ups. reach dstep (dsys_init (NewDebounceBuffer (sample_config 50))) s \<and>
     run_steps dstep ls s = Some s' \<and> LDone \<notin> set ls \<and> ds_events s' = ds_events s \<and>
     ch_sent (Payloads (ds_buf s')) = ch_sent (Payloads (ds_buf s)) @ [\<lparr>Upserts = ups, Deletes = []\<rparr>] \<and>
     sample_instance ''x'' ''2'' \<in> set ups"
proof -
  obtain s where r: "reach dstep (dsys_init (NewDebounceBuffer (sample_config 50))) s"
    and s: "ds_run s = RSelect"
      "map_option pc_instance (gm_get (pending (ds_buf s)) ''x'') = Some (sample_instance ''x'' ''2'')"
    by (rule ends_inE [OF stale_timer_ends]) (simp add: sample_start_def)
  then obtain x where "gm_get (pending (ds_buf s)) ''x'' = Some x" "pc_instance x = sample_instance ''x'' ''2''"
    by auto
  then show ?thesis using pending_never_stuck [OF r s(1)] r by metis
qed

text \<open>C6. The payload channel is never misused, whatever the interleaving of \<open>Run\<close> and the
  timer goroutines: no send on a closed channel and no second close (both would panic), the
  buffered payloads are always the last ones sent, in order and within the capacity, and the
  channel is closed exactly when \<open>Run\<close> has returned.\<close>

theorem payload_channel_safe:
  assumes "reach dstep (dsys_init (NewDebounceBuffer cfg)) s"
  shows "\<not> ch_panic (Payloads (ds_buf s)) \<and>
    length (ch_buf (Payloads (ds_buf s))) \<le> ch_cap (Payloads (ds_buf s)) \<and>
    suffix (ch_buf (Payloads (ds_buf s))) (ch_sent (Payloads (ds_buf s))) \<and>
    (ch_closed (Payloads (ds_buf s)) \<longleftrightarrow> ds_run s = RDone)"
  using good_channel [OF reach_good [OF assms]] by (simp add: chan_ok_def)

lemma shutdown_race_ends:
  "ends_in dstep shutdown_race (sample_start 1)
     (\<lambda>s. ds_run s = RDone \<and> ds_timers s = [] \<and> pending (ds_buf s) = [] \<and>
        ch_sent (Payloads (ds_buf s)) = [] \<and> ch_dropped (Payloads (ds_buf s)) = [])"
  by code_simp

theorem payload_channel_safe_witness:
  "\<exists>s. reach dstep (dsys_init (NewDebounceBuffer (sample_config 1))) s \<and>
     ch_closed (Payloads (ds_buf s)) \<and> \<not> ch_panic (Payloads (ds_buf s))"
proof -
  obtain s where r: "reach dstep (dsys_init (NewDebounceBuffer (sample_config 1))) s" "ds_run s = RDone"
    by (rule ends_inE [OF shutdown_race_ends]) (simp add: sample_start_def)
  then show ?thesis using payload_channel_safe [OF r(1)] by blast
qed

text \<open>C8. Every payload the buffer puts on its channel, or gives up because the channel is full,
  is well formed: either one delete and no upsert, or no delete and at least one upsert with no
  resource twice. No payload is empty, so the client never skips one.\<close>

theorem payloads_well_formed:
  assumes "reach dstep (dsys_init (NewDebounceBuffer cfg)) s"
    and "p \<in> set (ch_sent (Payloads (ds_buf s))) \<union> set (ch_dropped (Payloads (ds_buf s)))"
  shows "(Upserts p = [] \<and> (\<exists>i. Deletes p = [i]) \<or>
      Deletes p = [] \<and> Upserts p \<noteq> [] \<and> distinct (map ri_ID (Upserts p))) \<and> \<not> IsEmpty p"
proof -
  have "batch_inv ri_ID (dabs s)" using reach_good [OF assms(1)] by (simp add: good_def)
  with assms(2) have "payload_ok ri_ID (payload_view p)" by (auto simp: batch_inv_def bs_offered_def)
  then show ?thesis by (auto simp: payload_ok_def batch_ok_def IsEmpty_def payload_view_def)
qed

lemma late_upsert_ends:
  "ends_in dstep late_upsert (sample_start 1)
     (\<lambda>s. ch_sent (Payloads (ds_buf s)) =
        [\<lparr>Upserts = [], Deletes = [''x'']\<rparr>, \<lparr>Upserts = [sample_instance ''x'' ''1''], Deletes = []\<rparr>] \<and>
        map snd (ds_events s) = [add_event ''x'' ''1'', delete_event ''x''] \<and>
        ds_run s = RSelect \<and> ds_timers s = [] \<and> pending (ds_buf s) = [])"
  by code_simp

theorem payloads_well_formed_witness:
  "\<exists>s. reach dstep (dsys_init (NewDebounceBuffer (sample_config 1))) s \<and>
     \<lparr>Upserts = [sample_instance ''x'' ''1''], Deletes = []\<rparr> \<in> set (ch_sent (Payloads (ds_buf s))) \<and>
     \<not> IsEmpty \<lparr>Upserts = [sample_instance ''x'' ''1''], Deletes = []\<rparr>"
proof -
  obtain s where r: "reach dstep (dsys_init (NewDebounceBuffer (sample_config 1))) s"
    "ch_sent (Payloads (ds_buf s)) =
        [\<lparr>Upserts = [], Deletes = [''x'']\<rparr>, \<lparr>Upserts = [sample_instance ''x'' ''1''], Deletes = []\<rparr>]"
    by (rule ends_inE [OF late_upsert_ends]) (simp add: sample_start_def)
  then have "\<lparr>Upserts = [sample_instance ''x'' ''1''], Deletes = []\<rparr> \<in> set (ch_sent (Payloads (ds_buf s)))"
    by simp
  then show ?thesis using payloads_well_formed [OF r(1)] r(1) by blast
qed

text \<open>C7. Last state wins and nothing is lost before shutdown: in every reachable state a
  pending entry holds the instance of the latest event of its ID, and if that event is an add
  or update its instance is pending, in a batch a goroutine is about to emit, or in a payload
  already sent or dropped because the channel was full, unless the channel has been closed.\<close>

theorem last_state_pending_or_offered:
  assumes "reach dstep (dsys_init (NewDebounceBuffer cfg)) s"
  shows "(\<forall>i x. gm_get (pending (ds_buf s)) i = Some x \<longrightarrow>
       (\<exists>t e. last_event (ds_events s) i = Some (t, e) \<and> re_Type e \<noteq> EventDelete \<and>
              re_Instance e = pc_instance x)) \<and>
    (\<forall>i t e. last_event (ds_events s) i = Some (t, e) \<longrightarrow> re_Type e \<noteq> EventDelete \<longrightarrow>
       (\<exists>x. gm_get (pending (ds_buf s)) i = Some x \<and> pc_instance x = re_Instance e) \<or>
       (\<exists>ups \<in> in_flight s. re_Instance e \<in> set ups) \<or>
       (\<exists>p \<in> set (ch_sent (Payloads (ds_buf s))) \<union> set (ch_dropped (Payloads (ds_buf s))).
          re_Instance e \<in> set (Upserts p)) \<or>
       payloadsClosed (ds_buf s))"
proof -
  have inv: "latest_inv ri_ID (dabs s)" "account_inv ri_ID (dabs s)"
    using reach_good [OF assms] by (simp_all add: good_def)
  have "\<exists>t e. last_event (ds_events s) i = Some (t, e) \<and> re_Type e \<noteq> EventDelete \<and> re_Instance e = pc_instance x"
    if "gm_get (pending (ds_buf s)) i = Some x" for i x
  proof -
    have "bs_entries (dabs s) i = Some (abs_entry x)" using that by (simp add: entries_of_def)
    then obtain t where "last_change ri_ID (bs_log (dabs s)) i = Some (t, Put (pc_instance x))"
      using inv(1) by (force simp: latest_inv_def)
    then show ?thesis unfolding last_event_view by (auto split: if_splits)
  qed
  moreover have "(\<exists>x. gm_get (pending (ds_buf s)) i = Some x \<and> pc_instance x = re_Instance e) \<or>
      accounted (dabs s) (re_Instance e)"
    if "last_event (ds_events s) i = Some (t, e)" "re_Type e \<noteq> EventDelete" for i t e
  proof -
    have "last_change ri_ID (bs_log (dabs s)) i = Some (t, Put (re_Instance e))"
      unfolding last_event_view using that by simp
    then have "(\<exists>y. bs_entries (dabs s) i = Some y \<and> en_value y = re_Instance e) \<or> accounted (dabs s) (re_Instance e)"
      using inv(2) unfolding account_inv_def by blast
    then show ?thesis by (auto simp: entries_of_Some)
  qed
  moreover have "accounted (dabs s) r \<longleftrightarrow> (\<exists>ups \<in> in_flight s. r \<in> set ups) \<or>
      (\<exists>p \<in> set (ch_sent (Payloads (ds_buf s))) \<union> set (ch_dropped (Payloads (ds_buf s))). r \<in> set (Upserts p)) \<or>
      payloadsClosed (ds_buf s)" for r
    by (simp add: accounted_def in_flight_view bs_offered_def bex_Un)
  ultimately show ?thesis by blast
qed

theorem last_state_pending_or_offered_witness:
  "\<exists>s x. reach dstep (dsys_init (NewDebounceBuffer (sample_config 50))) s \<and>
     gm_get (pending (ds_buf s)) ''x'' = Some x \<and> pc_instance x = sample_instance ''x'' ''2'' \<and>
     (\<exists>t e. last_event (ds_events s) ''x'' = Some (t, e) \<and> re_Instance e = sample_instance ''x'' ''2'')"
proof -
  obtain s where r: "reach dstep (dsys_init (NewDebounceBuffer (sample_config 50))) s"
    and s: "map_option pc_instance (gm_get (pending (ds_buf s)) ''x'') = Some (sample_instance ''x'' ''2'')"
    by (rule ends_inE [OF stale_timer_ends]) (simp add: sample_start_def)
  then obtain x where "gm_get (pending (ds_buf s)) ''x'' = Some x" "pc_instance x = sample_instance ''x'' ''2''"
    by auto
  then show ?thesis using last_state_pending_or_offered [OF r] r by metis
qed

text \<open>The timer of the entry that a received instance gets: armed for one window from now, with the ID and the
  generation of the entry.\<close>

definition timer_armed :: "dsys \<Rightarrow> ResourceInstance \<Rightarrow> dsys \<Rightarrow> bool" where
  "timer_armed s r s' \<longleftrightarrow>
     (\<exists>x. gm_get (pending (ds_buf s')) (ri_ID r) = Some x \<and> pc_instance x = r \<and>
        (pc_timer x, (ri_ID r, pc_gen x), tm_now (timers (ds_buf s)) + max 0 (sint (debounceWindow (ds_buf s))))
          \<in> set (tm_armed (timers (ds_buf s'))))"

text \<open>C13. The buffer implements the specification of a debounce buffer (\<open>Buffer_Spec\<close>): in every reachable state each step
  of its goroutines is a move of the specification, and each move that receives nothing is a step, so the buffer has no
  behaviour the specification forbids and none is missing. What the specification leaves open is the length of a timer: each add
  or update arms one for its entry that expires one debounce window later. Waiting in its select, \<open>Run\<close> accepts every event. And the methods
  of the code are among these behaviours: the uninterrupted schedules of a received event, of a flush tick, of the
  shutdown and of an expired timer end in exactly the state \<open>handleEvent\<close>, \<open>flushPending\<close>, \<open>flushAllPending\<close>
  followed by \<open>closePayloads\<close>, and the function of the timer compute.\<close>

theorem buffer_refines_specification:
  assumes "reach dstep (dsys_init (NewDebounceBuffer cfg)) s"
  shows "(\<forall>l s'. dstep l s = Some s' \<longrightarrow> bmove ri_ID (event_change l) (dabs s) (dabs s')) \<and>
    (\<forall>ev s'. dstep (LEvent ev) s = Some s' \<longrightarrow> re_Type ev \<noteq> EventDelete \<longrightarrow> timer_armed s (re_Instance ev) s') \<and>
    (\<forall>a. bmove ri_ID None (dabs s) a \<longrightarrow> (\<exists>l s'. dstep l s = Some s' \<and> event_change l = None \<and> dabs s' = a)) \<and>
    (ds_run s = RSelect \<longrightarrow>
      (\<exists>ls. run_steps dstep ls s =
         Some (s\<lparr>ds_buf := handleEvent e (ds_buf s),
                 ds_events := ds_events s @ [(tm_now (timers (ds_buf s)), e)]\<rparr>)) \<and>
      (range_order ord (pending (ds_buf s)) \<longrightarrow>
         (\<exists>ls. run_steps dstep ls s = Some (s\<lparr>ds_buf := flushPending ord (ds_buf s)\<rparr>)) \<and>
         (\<exists>ls. run_steps dstep ls s =
            Some (s\<lparr>ds_buf := closePayloads (flushAllPending ord (ds_buf s)), ds_run := RDone\<rparr>)))) \<and>
    (ds_timers s = ts @ [TFired c] \<longrightarrow> range_order ord (pending (markReady c (ds_buf s))) \<longrightarrow>
      (\<exists>ls. run_steps dstep ls s = Some (s\<lparr>ds_buf := timerFunc ord c (ds_buf s), ds_timers := ts\<rparr>)))"
proof -
  have wf: "pending_wf s" using dimpl.reach_wf [OF assms fresh_buffer(2)] .
  have "(\<forall>l s'. dstep l s = Some s' \<longrightarrow> bmove ri_ID (event_change l) (dabs s) (dabs s')) \<and>
      (\<forall>a. bmove ri_ID None (dabs s) a \<longrightarrow> (\<exists>l s'. dstep l s = Some s' \<and> event_change l = None \<and> dabs s' = a))"
    using dimpl.sound [OF wf] dimpl.complete [OF wf] by blast
  moreover have "timer_armed s (re_Instance ev) s'" if "dstep (LEvent ev) s = Some s'" "re_Type ev \<noteq> EventDelete" for ev s'
    using that by (auto simp: Let_def timer_armed_def debounceUpsert_def split: if_splits option.splits)
  ultimately show ?thesis
    using handleEvent_schedule [of s e] flushPending_schedule [of s ord]
      shutdown_schedule [of s ord] timerFunc_schedule [of s ts c ord] by blast
qed

text \<open>The specification can expire the timer of a pending entry, so the buffer can, into a state the specification
  describes.\<close>

lemma armed_ends:
  "ends_in dstep [LEvent (add_event ''x'' ''1''), LTime 10] (sample_start 1)
     (\<lambda>s. tm_armed (timers (ds_buf s)) = [(0, (''x'', 0), 10)] \<and> tm_now (timers (ds_buf s)) = 10 \<and> ds_timers s = [])"
  by code_simp

theorem buffer_refines_specification_witness:
  "\<exists>s l s'. reach dstep (dsys_init (NewDebounceBuffer (sample_config 1))) s \<and> dstep l s = Some s' \<and>
     bs_goroutines (dabs s') = {#Fired (''x'', 0)#} \<and> bs_armed (dabs s') = {#}"
proof -
  obtain s where r: "reach dstep (dsys_init (NewDebounceBuffer (sample_config 1))) s"
    and s: "tm_armed (timers (ds_buf s)) = [(0, (''x'', 0), 10)]" "tm_now (timers (ds_buf s)) = 10" "ds_timers s = []"
    by (rule ends_inE [OF armed_ends]) (simp add: sample_start_def)
  let ?a = "(dabs s)\<lparr>bs_armed := bs_armed (dabs s) - {#(0, (''x'', 0), 10)#},
      bs_goroutines := add_mset (Fired (''x'', 0)) (bs_goroutines (dabs s))\<rparr>"
  have "bmove ri_ID None (dabs s) ?a" by (rule bm_expire) (simp_all add: s)
  then obtain l s' where "dstep l s = Some s'" "dabs s' = ?a"
    using buffer_refines_specification [OF r] by blast
  then show ?thesis using r s by (intro exI [of _ s] exI [of _ l] exI [of _ s']) simp
qed

text \<open>C28. One flush empties the buffer of everything that is ready: with room on the open channel,
  \<open>flushPending\<close> sends one payload with the instances of all ready entries, each once, and
  leaves exactly the entries that are not ready; it sends nothing when none is ready. The size
  of the payload is the number of ready entries, whatever \<open>BATCH_MAX_SIZE\<close> is.\<close>

theorem flushPending_sends_all_ready:
  assumes "gm_wf (pending d)" "range_order ord (pending d)"
    and "\<not> payloadsClosed d" "\<not> ch_closed (Payloads d)" "chan_room (Payloads d)"
  shows "gm_get (pending (flushPending ord d)) =
      (\<lambda>i. if is_ready (pending d) i then None else gm_get (pending d) i) \<and>
    (\<exists>ups. mset ups = mset (map (\<lambda>(_, x). pc_instance x) (filter (\<lambda>(_, x). pc_ready x) (pending d))) \<and>
       length ups = readyCount d \<and>
       ch_sent (Payloads (flushPending ord d)) =
         ch_sent (Payloads d) @ (if ups = [] then [] else [\<lparr>Upserts = ups, Deletes = []\<rparr>]))"
proof -
  obtain ups d' where c: "collectReady ord d = (ups, d')" by (cases "collectReady ord d")
  note spec = collectReady_spec [OF assms(2,1) c]
  have "mset (filter (is_ready (pending d)) ord) = mset (filter (is_ready (pending d)) (gm_keys (pending d)))"
    using assms(2) by (simp add: range_order_def)
  then have "mset ups = mset (map (inst_at (pending d)) (filter (is_ready (pending d)) (gm_keys (pending d))))"
    unfolding spec(1) by (metis mset_map)
  also have "map (inst_at (pending d)) (filter (is_ready (pending d)) (gm_keys (pending d))) =
      map (\<lambda>(_, x). pc_instance x) (filter (\<lambda>(_, x). pc_ready x) (pending d))"
    by (rule ready_entries [OF assms(1)])
  finally have ups: "mset ups = mset (map (\<lambda>(_, x). pc_instance x) (filter (\<lambda>(_, x). pc_ready x) (pending d)))" .
  then have len: "length ups = readyCount d"
    using mset_eq_length [OF ups] by (simp add: readyCount_eq)
  have "\<not> payloadsClosed d'" "Payloads d' = Payloads d" using collect_frame(1) [OF c] assms(3) by auto
  then have "ch_sent (Payloads (flushPending ord d)) =
      ch_sent (Payloads d) @ (if ups = [] then [] else [\<lparr>Upserts = ups, Deletes = []\<rparr>])"
    using c assms(4,5) by (simp add: flushPending_def emitPayload_def chan_send_nb_room)
  moreover have "pending (flushPending ord d) = pending d'" using c by (simp add: flushPending_def)
  ultimately show ?thesis using ups len spec(2) by metis
qed

definition two_ready :: DebounceBuffer where
  "two_ready = (NewDebounceBuffer (sample_config 1))
     \<lparr>pending := map (\<lambda>i. (i, \<lparr>pc_instance = sample_instance i ''1'', pc_timer = 0, pc_ready = True, pc_gen = 0\<rparr>))
        [''x'', ''y'']\<rparr>"

theorem flushPending_sends_all_ready_witness:
  "maxBatchSize two_ready = 1 \<and>
   (\<exists>ups. length ups = 2 \<and>
      ch_sent (Payloads (flushPending [''y'', ''x''] two_ready)) = [\<lparr>Upserts = ups, Deletes = []\<rparr>])"
proof -
  have "gm_wf (pending two_ready)" "range_order [''y'', ''x''] (pending two_ready)"
    "\<not> payloadsClosed two_ready" "\<not> ch_closed (Payloads two_ready)" "chan_room (Payloads two_ready)"
    and two: "readyCount two_ready = 2" "ch_sent (Payloads two_ready) = []" "maxBatchSize two_ready = 1"
    by (simp_all add: two_ready_def NewDebounceBuffer_def gm_wf_def gm_keys_def range_order_def
        chan_room_def readyCount_eq sample_config_def)
  note flushPending_sends_all_ready [OF this(1-5)]
  then obtain ups where "length ups = 2"
    "ch_sent (Payloads (flushPending [''y'', ''x''] two_ready)) =
       (if ups = [] then [] else [\<lparr>Upserts = ups, Deletes = []\<rparr>])"
    using two by auto
  then show ?thesis using two(3) by auto
qed

section \<open>Where the buffer departs from its documentation\<close>


lemma last_expires:
  assumes "w \<le> tm_now t" "tm_armed t = cs @ [(h, c, w)]"
  shows "expire (length cs) t = Some (c, t\<lparr>tm_armed := cs\<rparr>)"
  using assms by (simp add: expire_def)

text \<open>A timer of a fresh ID has expired after one window, its goroutine has not yet run.\<close>

definition fire_late :: "ResourceInstance \<Rightarrow> dsys \<Rightarrow> dlabel list" where
  "fire_late r s =
     [LEvent \<lparr>re_Type = EventAdd, re_Instance = r\<rparr>, LTime (nat (sint (debounceWindow (ds_buf s)))),
      LExpire (length (tm_armed (timers (ds_buf s))))]"

lemma fire_late_runs:
  assumes "ds_run s = RSelect" "gm_get (pending (ds_buf s)) (ri_ID r) = None" "0 \<le> sint (debounceWindow (ds_buf s))"
  obtains x s' where "run_steps dstep (fire_late r s) s = Some s'" "ds_run s' = RSelect"
    "ds_timers s' = ds_timers s @ [TFired (ri_ID r, 0)]" "gm_get (pending (ds_buf s')) (ri_ID r) = Some x"
    "pc_gen x = 0"
proof -
  let ?now = "tm_now (timers (ds_buf s))" and ?w = "sint (debounceWindow (ds_buf s))"
  let ?d = "debounceUpsert r (ds_buf s)"
  let ?t = "pass_time (nat ?w) (timers ?d)"
  have gen: "next_gen (ds_buf s) (ri_ID r) = 0" using assms(2) by (simp add: next_gen_def)
  have "tm_armed ?t = tm_armed (timers (ds_buf s)) @ [(tm_next (timers (ds_buf s)), (ri_ID r, 0), ?now + ?w)]"
    using assms(2,3) by (simp add: debounceUpsert_def)
  moreover have "?now + ?w \<le> tm_now ?t" using assms(3) by simp
  ultimately have "expire (length (tm_armed (timers (ds_buf s)))) ?t =
      Some ((ri_ID r, 0), ?t\<lparr>tm_armed := tm_armed (timers (ds_buf s))\<rparr>)"
    using last_expires by metis
  then have "run_steps dstep (fire_late r s) s =
      Some (s\<lparr>ds_events := ds_events s @ [(?now, \<lparr>re_Type = EventAdd, re_Instance = r\<rparr>)],
              ds_buf := ?d\<lparr>timers := ?t\<lparr>tm_armed := tm_armed (timers (ds_buf s))\<rparr>\<rparr>,
              ds_timers := ds_timers s @ [TFired (ri_ID r, 0)]\<rparr>)"
    using assms(1) by (simp add: fire_late_def)
  then show ?thesis using that assms(1) by (simp add: debounceUpsert_pending gen)
qed

text \<open>C37. The generation of an entry restarts at 0 when the entry was deleted in between, so a stale timer can match the
  new entry, whatever the configuration and the resource: from every state in which \<open>Run\<close> waits in its select and nothing
  is pending for the ID, a resource can be added, its timer expire, the resource be deleted and added again, and the
  goroutine of the first timer then marks the new entry, which was added at this very moment: no time at all of the debounce
  window, which is not 0, has passed since its event. The generation stops the same goroutine when the resource is not deleted but
  updated in between: the entry of the update stays unready.\<close>

theorem stale_timer_skips_window:
  assumes "ds_run s = RSelect" "gm_get (pending (ds_buf s)) (ri_ID r) = None"
    and "0 < sint (debounceWindow (ds_buf s))" "ri_ID r' = ri_ID r"
  shows "(\<exists>s' x. run_steps dstep (fire_late r s @ [LEvent \<lparr>re_Type = EventDelete, re_Instance = r\<rparr>, LRun [],
        LEvent \<lparr>re_Type = EventAdd, re_Instance = r'\<rparr>, LTimer (length (ds_timers s)) []]) s = Some s' \<and>
      last (ds_events s') = (tm_now (timers (ds_buf s')), \<lparr>re_Type = EventAdd, re_Instance = r'\<rparr>) \<and>
      gm_get (pending (ds_buf s')) (ri_ID r) = Some x \<and> pc_instance x = r' \<and> pc_ready x) \<and>
    (\<exists>s' x. run_steps dstep (fire_late r s @ [LEvent \<lparr>re_Type = EventUpdate, re_Instance = r'\<rparr>,
        LTimer (length (ds_timers s)) []]) s = Some s' \<and>
      last (ds_events s') = (tm_now (timers (ds_buf s')), \<lparr>re_Type = EventUpdate, re_Instance = r'\<rparr>) \<and>
      gm_get (pending (ds_buf s')) (ri_ID r) = Some x \<and> pc_instance x = r' \<and> \<not> pc_ready x)"
proof -
  obtain u y where u: "run_steps dstep (fire_late r s) s = Some u" "ds_run u = RSelect"
    "ds_timers u = ds_timers s @ [TFired (ri_ID r, 0)]" "gm_get (pending (ds_buf u)) (ri_ID r) = Some y" "pc_gen y = 0"
    by (rule fire_late_runs [OF assms(1,2) less_imp_le [OF assms(3)]])
  then show ?thesis using assms(4)
    by (simp add: run_steps_append run_step.simps timer_step.simps markReady_def cancelPending_pending
        debounceUpsert_pending next_gen_def)
qed

theorem stale_timer_skips_window_witness:
  "\<exists>s' x. run_steps dstep (fire_late (sample_instance ''x'' ''1'') (sample_start 50) @
        [LEvent (\<lparr>re_Type = EventDelete, re_Instance = sample_instance ''x'' ''1''\<rparr>), LRun [], LEvent (add_event ''x'' ''2''), LTimer 0 []]) (sample_start 50) = Some s' \<and>
     last (ds_events s') = (tm_now (timers (ds_buf s')), add_event ''x'' ''2'') \<and>
     gm_get (pending (ds_buf s')) ''x'' = Some x \<and> pc_ready x \<and> sint (debounceWindow (ds_buf (sample_start 50))) = 10"
proof -
  have "ds_run (sample_start 50) = RSelect" "gm_get (pending (ds_buf (sample_start 50))) (ri_ID (sample_instance ''x'' ''1'')) = None"
    "sint (debounceWindow (ds_buf (sample_start 50))) = 10" "ds_timers (sample_start 50) = []"
    "ri_ID (sample_instance ''x'' ver) = ''x''" for ver
    by (simp_all add: sample_start_def dsys_init_def NewDebounceBuffer_def sample_config_def sample_instance_def)
  note s = this
  show ?thesis
    using stale_timer_skips_window [OF s(1,2), of "sample_instance ''x'' ''2''"] s
    by (simp add: add_event_def del: dstep.simps run_steps.simps) blast
qed

text \<open>What the flush of the shutdown offers.\<close>

definition final_batch :: "DebounceBuffer \<Rightarrow> SyncPayload list" where
  "final_batch d =
     (if pending d = [] then [] else [\<lparr>Upserts = map (\<lambda>(_, x). pc_instance x) (pending d), Deletes = []\<rparr>])"

lemma flushAllPending_final:
  assumes "gm_wf (pending d)" "\<not> payloadsClosed d"
  shows "Payloads (flushAllPending (gm_keys (pending d)) d) =
      (case final_batch d of [] \<Rightarrow> Payloads d | p # _ \<Rightarrow> chan_send_nb p (Payloads d))"
    and "pending (flushAllPending (gm_keys (pending d)) d) = []"
    and "\<not> payloadsClosed (flushAllPending (gm_keys (pending d)) d)"
proof -
  obtain ups d' where c: "collectAll (gm_keys (pending d)) d = (ups, d')" by (cases "collectAll (gm_keys (pending d)) d")
  note spec = collectAll_spec [OF range_order_refl assms(1) c]
  have "inst_at (pending d) i = pc_instance x" if "(i, x) \<in> set (pending d)" for i x
    using that gm_get_Some_iff [OF assms(1), of i x] by (simp add: inst_at_def)
  then have "map (inst_at (pending d) \<circ> fst) (pending d) = map (\<lambda>(_, x). pc_instance x) (pending d)"
    by (intro map_cong) auto
  then have "ups = map (\<lambda>(_, x). pc_instance x) (pending d)" using spec(1) by (simp add: gm_keys_def)
  then show "Payloads (flushAllPending (gm_keys (pending d)) d) =
      (case final_batch d of [] \<Rightarrow> Payloads d | p # _ \<Rightarrow> chan_send_nb p (Payloads d))"
    "pending (flushAllPending (gm_keys (pending d)) d) = []"
    "\<not> payloadsClosed (flushAllPending (gm_keys (pending d)) d)"
    using c spec(2) collect_frame(2) [OF c] assms(2)
    by (simp_all add: flushAllPending_def final_batch_def emitPayload_def)
qed

text \<open>C38. A batch can be lost at shutdown: from every reachable state in which \<open>Run\<close> waits in its select and a timer goroutine
  holds a batch it has collected, \<open>Run\<close> can shut down and return before the goroutine goes on. The goroutine then
  ends without a panic and nothing is pending any more, but its batch is neither sent nor counted as dropped: all that is
  offered after the shutdown began is the final batch of the entries that were still pending.\<close>

theorem shutdown_can_lose_batch:
  assumes "reach dstep (dsys_init (NewDebounceBuffer cfg)) s"
    and "ds_run s = RSelect" "TEmit ups \<in> set (ds_timers s)"
  shows "\<exists>ls s'. run_steps dstep ls s = Some s' \<and> ds_run s' = RDone \<and> ds_events s' = ds_events s \<and>
    mset (ds_timers s') = mset (ds_timers s) - {#TEmit ups#} \<and> pending (ds_buf s') = [] \<and>
    \<not> ch_panic (Payloads (ds_buf s')) \<and>
    (if chan_room (Payloads (ds_buf s))
     then ch_sent (Payloads (ds_buf s')) = ch_sent (Payloads (ds_buf s)) @ final_batch (ds_buf s) \<and>
          ch_dropped (Payloads (ds_buf s')) = ch_dropped (Payloads (ds_buf s))
     else ch_sent (Payloads (ds_buf s')) = ch_sent (Payloads (ds_buf s)) \<and>
          ch_dropped (Payloads (ds_buf s')) = ch_dropped (Payloads (ds_buf s)) @ final_batch (ds_buf s))"
proof -
  have wf: "gm_wf (pending (ds_buf s))" using dimpl.reach_wf [OF assms(1) fresh_buffer(2)] by (simp add: pending_wf_def)
  let ?ord = "gm_keys (pending (ds_buf s))"
  let ?d = "closePayloads (flushAllPending ?ord (ds_buf s))"
  obtain ls where ls: "run_steps dstep ls s = Some (s\<lparr>ds_buf := ?d, ds_run := RDone\<rparr>)"
    using shutdown_schedule [OF assms(2) range_order_refl] by blast
  obtain k where k: "k < length (ds_timers s)" "ds_timers s ! k = TEmit ups" using assms(3) by (auto simp: in_set_conv_nth)
  let ?s' = "s\<lparr>ds_buf := ?d, ds_run := RDone, ds_timers := drop_nth k (ds_timers s)\<rparr>"
  have "dstep (LTimer k []) (s\<lparr>ds_buf := ?d, ds_run := RDone\<rparr>) = Some ?s'"
    using k by (simp add: timer_step.simps emitPayload_def)
  then have run: "run_steps dstep (ls @ [LTimer k []]) s = Some ?s'" using ls by (simp add: run_steps_append)
  have timers: "mset (ds_timers ?s') = mset (ds_timers s) - {#TEmit ups#}" using mset_drop_nth [OF k(1)] k(2) by simp
  have "reach dstep (dsys_init (NewDebounceBuffer cfg)) ?s'" by (rule run_steps_reach_from [OF assms(1) run])
  then have panic: "\<not> ch_panic (Payloads (ds_buf ?s'))" using good_channel(2) [OF reach_good] by blast
  have "chan_inv (dabs s)" using reach_good [OF assms(1)] by (simp add: good_def)
  then have "\<not> payloadsClosed (ds_buf s)" "\<not> ch_closed (Payloads (ds_buf s))"
    using good_channel(3) [OF reach_good [OF assms(1)]] assms(2) by (simp_all add: chan_inv_def bsink.sink_ok_def)
  note final = this flushAllPending_final [OF wf this(1)]
  have chan: "Payloads ?d = chan_close (Payloads (flushAllPending ?ord (ds_buf s)))"
    using final(5) by (simp add: closePayloads_def)
  show ?thesis
    by (rule exI [of _ "ls @ [LTimer k []]"], rule exI [of _ ?s'])
      (use run timers panic chan final in \<open>auto simp: final_batch_def chan_defs split: if_splits\<close>)
qed

lemma held_batch_ends:
  "ends_in dstep (take 6 shutdown_race) (sample_start 1)
     (\<lambda>s. ds_run s = RSelect \<and> ds_timers s = [TEmit [sample_instance ''x'' ''1'']] \<and> pending (ds_buf s) = [] \<and>
        ch_sent (Payloads (ds_buf s)) = [] \<and> ch_dropped (Payloads (ds_buf s)) = [] \<and>
        chan_room (Payloads (ds_buf s)) \<and> map snd (ds_events s) = [add_event ''x'' ''1''])"
  by code_simp

theorem shutdown_can_lose_batch_witness:
  "\<exists>s. reach dstep (dsys_init (NewDebounceBuffer (sample_config 1))) s \<and> ds_run s = RDone \<and> ds_timers s = [] \<and>
     map snd (ds_events s) = [add_event ''x'' ''1''] \<and> ch_sent (Payloads (ds_buf s)) = [] \<and>
     ch_dropped (Payloads (ds_buf s)) = []"
proof -
  obtain s where r: "reach dstep (dsys_init (NewDebounceBuffer (sample_config 1))) s"
    and s: "ds_run s = RSelect" "ds_timers s = [TEmit [sample_instance ''x'' ''1'']]" "pending (ds_buf s) = []"
      "ch_sent (Payloads (ds_buf s)) = []" "ch_dropped (Payloads (ds_buf s)) = []" "chan_room (Payloads (ds_buf s))"
      "map snd (ds_events s) = [add_event ''x'' ''1'']"
    by (rule ends_inE [OF held_batch_ends]) (simp add: sample_start_def)
  obtain ls s' where s': "run_steps dstep ls s = Some s'" "ds_run s' = RDone" "ds_events s' = ds_events s"
    "mset (ds_timers s') = {#}" "ch_sent (Payloads (ds_buf s')) = []" "ch_dropped (Payloads (ds_buf s')) = []"
    using shutdown_can_lose_batch [OF r s(1), of "[sample_instance ''x'' ''1'']"] s by (auto simp: final_batch_def)
  then show ?thesis using run_steps_reach_from [OF r s'(1)] s(7) by (intro exI [of _ s']) simp
qed

end
