(* ===== verification/Crd_Lemmas.thy ===== *)
theory Crd_Lemmas
  imports Crd_Debounce
begin

text \<open>
  What each critical section of the CRD buffer does; the refinement rests on these facts alone.
\<close>

section \<open>Frames\<close>

lemma emitPayload_frame_crd [simp]:
  "pending_crd (emitPayload_crd p d) = pending_crd d" "timers_crd (emitPayload_crd p d) = timers_crd d"
  "payloadsClosed_crd (emitPayload_crd p d) = payloadsClosed_crd d" "maxBatchSize_crd (emitPayload_crd p d) = maxBatchSize_crd d"
  "debounceWindow_crd (emitPayload_crd p d) = debounceWindow_crd d"
  "nextGen (emitPayload_crd p d) = nextGen d"
  by (simp_all add: emitPayload_crd_def)

lemma closePayloads_frame_crd [simp]:
  "pending_crd (closePayloads_crd d) = pending_crd d" "timers_crd (closePayloads_crd d) = timers_crd d"
  "payloadsClosed_crd (closePayloads_crd d)" "debounceWindow_crd (closePayloads_crd d) = debounceWindow_crd d"
  "nextGen (closePayloads_crd d) = nextGen d" "maxBatchSize_crd (closePayloads_crd d) = maxBatchSize_crd d"
  by (simp_all add: closePayloads_crd_def)

lemma cancelPending_frame_crd [simp]:
  "crd_Payloads (cancelPending_crd i d) = crd_Payloads d" "maxBatchSize_crd (cancelPending_crd i d) = maxBatchSize_crd d" "payloadsClosed_crd (cancelPending_crd i d) = payloadsClosed_crd d"
  "tm_now (timers_crd (cancelPending_crd i d)) = tm_now (timers_crd d)"
  "tm_next (timers_crd (cancelPending_crd i d)) = tm_next (timers_crd d)"
  "nextGen (cancelPending_crd i d) = nextGen d"
  "debounceWindow_crd (cancelPending_crd i d) = debounceWindow_crd d"
  by (simp_all add: cancelPending_crd_def split: option.splits)

lemma debounceAdd_frame_crd [simp]:
  "crd_Payloads (debounceAdd r d) = crd_Payloads d" "maxBatchSize_crd (debounceAdd r d) = maxBatchSize_crd d" "payloadsClosed_crd (debounceAdd r d) = payloadsClosed_crd d"
  "tm_now (timers_crd (debounceAdd r d)) = tm_now (timers_crd d)"
  "tm_next (timers_crd (debounceAdd r d)) = Suc (tm_next (timers_crd d))"
  "nextGen (debounceAdd r d) = nextGen d + 1" "debounceWindow_crd (debounceAdd r d) = debounceWindow_crd d"
  by (simp_all add: debounceAdd_def Let_def split: option.splits)

lemma markReady_frame_crd [simp]:
  "crd_Payloads (markReady_crd c d) = crd_Payloads d" "maxBatchSize_crd (markReady_crd c d) = maxBatchSize_crd d" "payloadsClosed_crd (markReady_crd c d) = payloadsClosed_crd d"
  "timers_crd (markReady_crd c d) = timers_crd d" "nextGen (markReady_crd c d) = nextGen d"
  "debounceWindow_crd (markReady_crd c d) = debounceWindow_crd d"
  by (simp_all add: markReady_crd_def split: option.splits prod.splits)

section \<open>Effects on the pending map\<close>

lemma cancelPending_pending_crd: "pending_crd (cancelPending_crd i d) = gm_del i (pending_crd d)"
proof (cases "gm_get (pending_crd d) i")
  case None
  then have "i \<notin> fst ` set (pending_crd d)" by (simp add: gm_get_None_iff gm_keys_def)
  with None show ?thesis by (simp add: cancelPending_crd_def gm_del_def)
qed (simp add: cancelPending_crd_def)

lemma debounceAdd_pending_crd:
  "pending_crd (debounceAdd r d) =
     gm_put r \<lparr>pcc_crdName = r, pcc_timer = tm_next (timers_crd d), pcc_ready = False,
                       pcc_gen = nextGen d + 1\<rparr> (pending_crd d)"
  by (simp add: debounceAdd_def Let_def split: option.splits)

lemma markReady_wf_crd: "gm_wf (pending_crd d) \<Longrightarrow> gm_wf (pending_crd (markReady_crd c d))"
  by (auto simp: markReady_crd_def split: option.splits prod.splits)

definition is_ready_crd :: "(string, pendingCrdChange) gomap \<Rightarrow> string \<Rightarrow> bool" where
  "is_ready_crd pend i \<longleftrightarrow> (case gm_get pend i of Some x \<Rightarrow> pcc_ready x | None \<Rightarrow> False)"

definition inst_at_crd :: "(string, pendingCrdChange) gomap \<Rightarrow> string \<Rightarrow> string" where
  "inst_at_crd pend i = pcc_crdName (the (gm_get pend i))"

lemma is_ready_del_crd [simp]: "is_ready_crd (gm_del j pend) i \<longleftrightarrow> i \<noteq> j \<and> is_ready_crd pend i"
  by (auto simp: is_ready_crd_def)

lemma inst_at_del_crd: "i \<noteq> j \<Longrightarrow> inst_at_crd (gm_del j pend) i = inst_at_crd pend i"
  by (simp add: inst_at_crd_def)

lemma collect_loop_spec_crd:
  "distinct ord \<Longrightarrow>
   fst (collect_loop_crd ord pend ups) = ups @ map (inst_at_crd pend) (filter (is_ready_crd pend) ord) \<and>
   gm_get (snd (collect_loop_crd ord pend ups)) =
     (\<lambda>i. if i \<in> set ord \<and> is_ready_crd pend i then None else gm_get pend i) \<and>
   (gm_wf pend \<longrightarrow> gm_wf (snd (collect_loop_crd ord pend ups)))"
proof (induction ord pend ups rule: collect_loop_crd.induct)
  case (1 pend ups)
  show ?case by simp
next
  case (2 i ord pend ups)
  show ?case
  proof (cases "is_ready_crd pend i")
    case True
    then obtain x where x: "gm_get pend i = Some x" "pcc_ready x"
      by (auto simp: is_ready_crd_def split: option.splits)
    have "filter (is_ready_crd (gm_del i pend)) ord = filter (is_ready_crd pend) ord"
      using "2.prems" by (intro filter_cong) auto
    moreover have "map (inst_at_crd (gm_del i pend)) (filter (is_ready_crd pend) ord) =
        map (inst_at_crd pend) (filter (is_ready_crd pend) ord)"
      using "2.prems" by (intro map_cong inst_at_del_crd) auto
    ultimately have ups: "map (inst_at_crd (gm_del i pend)) (filter (is_ready_crd (gm_del i pend)) ord) =
        map (inst_at_crd pend) (filter (is_ready_crd pend) ord)" by simp
    have e: "collect_loop_crd (i # ord) pend ups = collect_loop_crd ord (gm_del i pend) (ups @ [pcc_crdName x])"
      using x by simp
    have "distinct ord" "i \<notin> set ord" using "2.prems" by auto
    note IH = "2.IH"(2) [OF x this(1), unfolded ups]
    show ?thesis unfolding e
      using IH x True \<open>i \<notin> set ord\<close> by (auto simp: inst_at_crd_def)
  next
    case False
    then have "collect_loop_crd (i # ord) pend ups = collect_loop_crd ord pend ups"
      by (simp add: is_ready_crd_def split: option.splits)
    moreover have "distinct ord" using "2.prems" by simp
    ultimately show ?thesis using "2.IH"(1,3) False
      by (cases "gm_get pend i") (auto simp: fun_eq_iff is_ready_crd_def)
  qed
qed

lemma collect_all_loop_spec_crd:
  "distinct ord \<Longrightarrow> set ord \<subseteq> dom (gm_get pend) \<Longrightarrow>
   fst (collect_all_loop_crd ord pend t ups) = ups @ map (inst_at_crd pend) ord \<and>
   gm_get (fst (snd (collect_all_loop_crd ord pend t ups))) =
     (\<lambda>i. if i \<in> set ord then None else gm_get pend i) \<and>
   tm_now (snd (snd (collect_all_loop_crd ord pend t ups))) = tm_now t \<and>
   tm_next (snd (snd (collect_all_loop_crd ord pend t ups))) = tm_next t \<and>
   set (tm_armed (snd (snd (collect_all_loop_crd ord pend t ups)))) \<subseteq> set (tm_armed t)"
proof (induction ord pend t ups rule: collect_all_loop_crd.induct)
  case (1 pend t ups)
  show ?case by simp
next
  case (2 i ord pend t ups)
  then obtain x where x: "gm_get pend i = Some x" by auto
  have "map (inst_at_crd (gm_del i pend)) ord = map (inst_at_crd pend) ord"
    using "2.prems" by (intro map_cong inst_at_del_crd) auto
  moreover have "set ord \<subseteq> dom (gm_get (gm_del i pend))"
    using "2.prems" by (auto simp: gm_get_del_fun)
  ultimately have IH: "fst (collect_all_loop_crd ord (gm_del i pend) (Stop_timer (pcc_timer x) t) (ups @ [pcc_crdName x])) =
      (ups @ [pcc_crdName x]) @ map (inst_at_crd pend) ord"
    and IH': "gm_get (fst (snd (collect_all_loop_crd ord (gm_del i pend) (Stop_timer (pcc_timer x) t) (ups @ [pcc_crdName x])))) =
      (\<lambda>j. if j \<in> set ord then None else gm_get (gm_del i pend) j)"
    and IH'': "tm_now (snd (snd (collect_all_loop_crd ord (gm_del i pend) (Stop_timer (pcc_timer x) t) (ups @ [pcc_crdName x])))) = tm_now t"
      "tm_next (snd (snd (collect_all_loop_crd ord (gm_del i pend) (Stop_timer (pcc_timer x) t) (ups @ [pcc_crdName x])))) = tm_next t"
      "set (tm_armed (snd (snd (collect_all_loop_crd ord (gm_del i pend) (Stop_timer (pcc_timer x) t) (ups @ [pcc_crdName x])))))
         \<subseteq> set (tm_armed (Stop_timer (pcc_timer x) t))"
    using "2.IH"(2) [OF x] "2.prems" by (simp_all del: gm_get_del)
  have e: "collect_all_loop_crd (i # ord) pend t ups =
      collect_all_loop_crd ord (gm_del i pend) (Stop_timer (pcc_timer x) t) (ups @ [pcc_crdName x])"
    using x by simp
  show ?case unfolding e IH IH' IH''(1,2)
    using IH''(3) x by (auto simp: inst_at_crd_def fun_eq_iff)
qed

section \<open>Collecting\<close>

lemma collectReady_spec_crd:
  assumes "range_order ord (pending_crd d)" "gm_wf (pending_crd d)" "collectReady_crd ord d = (ups, d')"
  shows "ups = map (inst_at_crd (pending_crd d)) (filter (is_ready_crd (pending_crd d)) ord)"
    and "gm_get (pending_crd d') = (\<lambda>i. if is_ready_crd (pending_crd d) i then None else gm_get (pending_crd d) i)"
    and "gm_wf (pending_crd d')"
    and "d' = d\<lparr>pending_crd := pending_crd d'\<rparr>"
proof -
  have dist: "distinct ord" using assms range_order_distinct by blast
  have "is_ready_crd (pending_crd d) i \<Longrightarrow> i \<in> set ord" for i
    using range_order_set [OF assms(1)] by (auto simp: is_ready_crd_def split: option.splits)
  moreover have "pending_crd d = [] \<Longrightarrow> ord = []"
    using range_order_length [OF assms(1)] by simp
  ultimately show "ups = map (inst_at_crd (pending_crd d)) (filter (is_ready_crd (pending_crd d)) ord)"
    "gm_get (pending_crd d') = (\<lambda>i. if is_ready_crd (pending_crd d) i then None else gm_get (pending_crd d) i)"
    "gm_wf (pending_crd d')" "d' = d\<lparr>pending_crd := pending_crd d'\<rparr>"
    using assms(2,3) collect_loop_spec_crd [OF dist, of "pending_crd d" "[]"]
    by (auto simp: collectReady_crd_def fun_eq_iff split: if_splits prod.splits)
qed

lemma collectAll_spec_crd:
  assumes "range_order ord (pending_crd d)" "gm_wf (pending_crd d)" "collectAll_crd ord d = (ups, d')"
  shows "ups = map (inst_at_crd (pending_crd d)) ord"
    and "pending_crd d' = []"
    and "d' = d\<lparr>pending_crd := [], timers_crd := timers_crd d'\<rparr>"
    and "tm_now (timers_crd d') = tm_now (timers_crd d)" "tm_next (timers_crd d') = tm_next (timers_crd d)"
    and "set (tm_armed (timers_crd d')) \<subseteq> set (tm_armed (timers_crd d))"
proof -
  have dist: "distinct ord" using assms range_order_distinct by blast
  have dom: "set ord = dom (gm_get (pending_crd d))" using range_order_set [OF assms(1)] .
  note spec = collect_all_loop_spec_crd [OF dist, of "pending_crd d" "timers_crd d" "[]"]
  have "(\<lambda>i. if i \<in> set ord then None else gm_get (pending_crd d) i) = Map.empty"
    using dom by (auto simp: fun_eq_iff)
  then have pend: "pending_crd d' = []"
    using assms(3) spec dom
    by (auto simp: collectAll_crd_def gm_empty_iff split: if_splits prod.splits)
  moreover have "pending_crd d = [] \<Longrightarrow> ord = []" using range_order_length [OF assms(1)] by simp
  ultimately show "ups = map (inst_at_crd (pending_crd d)) ord" "pending_crd d' = []"
    "d' = d\<lparr>pending_crd := [], timers_crd := timers_crd d'\<rparr>"
    "tm_now (timers_crd d') = tm_now (timers_crd d)" "tm_next (timers_crd d') = tm_next (timers_crd d)"
    "set (tm_armed (timers_crd d')) \<subseteq> set (tm_armed (timers_crd d))"
    using assms(3) spec dom
    by (auto simp: collectAll_crd_def split: if_splits prod.splits)
qed

lemma collect_frame_crd:
  "collectReady_crd ord d = (ups, d') \<Longrightarrow>
     crd_Payloads d' = crd_Payloads d \<and> payloadsClosed_crd d' = payloadsClosed_crd d \<and>
     maxBatchSize_crd d' = maxBatchSize_crd d \<and> timers_crd d' = timers_crd d \<and>
     nextGen d' = nextGen d \<and> debounceWindow_crd d' = debounceWindow_crd d"
  "collectAll_crd ord d = (ups, d') \<Longrightarrow>
     crd_Payloads d' = crd_Payloads d \<and> payloadsClosed_crd d' = payloadsClosed_crd d \<and>
     maxBatchSize_crd d' = maxBatchSize_crd d \<and> nextGen d' = nextGen d \<and> debounceWindow_crd d' = debounceWindow_crd d"
  by (auto simp: collectReady_crd_def collectAll_crd_def split: if_splits prod.splits)

lemma ready_loop_eq_crd: "ready_loop_crd m n = n + length (filter (\<lambda>(_, x). pcc_ready x) m)"
  by (induction m n rule: ready_loop_crd.induct) auto

lemma readyCount_eq_crd: "readyCount_crd d = length (filter (\<lambda>(_, x). pcc_ready x) (pending_crd d))"
  by (simp add: readyCount_crd_def ready_loop_eq_crd)

end
