(* ===== verification/Crd_Refinement.thy ===== *)
theory Crd_Refinement
  imports Crd_Lemmas Buffer_Refinement
begin

text \<open>
  The CRD buffer implements the specification of \<open>Buffer_Spec\<close>: values are names of definitions, which are
  their own keys. Every step of the concurrent system is a move, every silent move is a step.
\<close>

section \<open>The payload channel\<close>

interpretation csink: payload_sink emitPayload_crd closePayloads_crd crd_Payloads payloadsClosed_crd
  by unfold_locales (auto simp: emitPayload_crd_def closePayloads_crd_def)

section \<open>The abstraction\<close>

definition abs_entry_crd :: "pendingCrdChange \<Rightarrow> string entry" where
  "abs_entry_crd x = \<lparr>en_value = pcc_crdName x, en_timer = pcc_timer x, en_ready = pcc_ready x, en_gen = pcc_gen x\<rparr>"

definition entries_of_crd :: "(string, pendingCrdChange) gomap \<Rightarrow> string entries" where
  "entries_of_crd m i = map_option abs_entry_crd (gm_get m i)"

definition payload_view_crd :: "CrdSyncPayload \<Rightarrow> string payload" where
  "payload_view_crd p = (crd_Upserts p, crd_Deletes p)"

lemma payload_view_sel_crd [simp]: "fst (payload_view_crd p) = crd_Upserts p" "snd (payload_view_crd p) = crd_Deletes p"
  by (simp_all add: payload_view_crd_def)

fun crd_change_of :: "CrdEvent \<Rightarrow> string change" where
  "crd_change_of e = (if ce_Type e = EventDelete then Del (ce_CrdName e) else Put (ce_CrdName e))"

fun crd_event_change :: "clabel \<Rightarrow> string change option" where
  "crd_event_change (CLEvent e) = Some (crd_change_of e)"
| "crd_event_change _ = None"

fun abs_run_crd :: "crun_pc \<Rightarrow> string run_state" where
  "abs_run_crd CRSelect = Selecting"
| "abs_run_crd (CREmitDelete i) = EmitDelete i"
| "abs_run_crd (CREmitBatch ups) = EmitBatch ups"
| "abs_run_crd CRFlushAll = FlushAll"
| "abs_run_crd (CREmitFinal ups) = EmitFinal ups"
| "abs_run_crd CRClose = Closing"
| "abs_run_crd CRDone = Returned"

fun abs_timer_crd :: "ctimer_pc \<Rightarrow> string goroutine" where
  "abs_timer_crd (CTFired c) = Fired c"
| "abs_timer_crd CTMarked = Marked"
| "abs_timer_crd CTFlush = Flushing"
| "abs_timer_crd (CTEmit ups) = Emitting ups"

definition cabs :: "csys \<Rightarrow> string bstate" where
  "cabs s =
     \<lparr>bs_entries = entries_of_crd (pending_crd (cs_buf s)), bs_now = tm_now (timers_crd (cs_buf s)),
      bs_armed = mset (tm_armed (timers_crd (cs_buf s))), bs_next = tm_next (timers_crd (cs_buf s)),
      bs_max = maxBatchSize_crd (cs_buf s), bs_chan = chan_map payload_view_crd (crd_Payloads (cs_buf s)),
      bs_closed = payloadsClosed_crd (cs_buf s), bs_run = abs_run_crd (cs_run s),
      bs_goroutines = mset (map abs_timer_crd (cs_timers s)),
      bs_log = map (\<lambda>(t, e). (t, crd_change_of e)) (cs_events s)\<rparr>"

definition pending_wf_crd :: "csys \<Rightarrow> bool" where
  "pending_wf_crd s \<longleftrightarrow> gm_wf (pending_crd (cs_buf s))"

lemma cabs_sel [simp]:
  "bs_entries (cabs s) = entries_of_crd (pending_crd (cs_buf s))" "bs_now (cabs s) = tm_now (timers_crd (cs_buf s))"
  "bs_armed (cabs s) = mset (tm_armed (timers_crd (cs_buf s)))" "bs_next (cabs s) = tm_next (timers_crd (cs_buf s))"
  "bs_max (cabs s) = maxBatchSize_crd (cs_buf s)" "bs_chan (cabs s) = chan_map payload_view_crd (crd_Payloads (cs_buf s))"
  "bs_closed (cabs s) = payloadsClosed_crd (cs_buf s)" "bs_run (cabs s) = abs_run_crd (cs_run s)"
  "bs_goroutines (cabs s) = mset (map abs_timer_crd (cs_timers s))"
  "bs_log (cabs s) = map (\<lambda>(t, e). (t, crd_change_of e)) (cs_events s)"
  by (simp_all add: cabs_def)

lemma abs_entry_sel_crd [simp]:
  "en_value (abs_entry_crd x) = pcc_crdName x" "en_timer (abs_entry_crd x) = pcc_timer x"
  "en_ready (abs_entry_crd x) = pcc_ready x" "en_gen (abs_entry_crd x) = pcc_gen x"
  by (simp_all add: abs_entry_crd_def)

lemma abs_run_iff_crd [simp]:
  "abs_run_crd r = Selecting \<longleftrightarrow> r = CRSelect" "abs_run_crd r = EmitDelete i \<longleftrightarrow> r = CREmitDelete i"
  "abs_run_crd r = EmitBatch ups \<longleftrightarrow> r = CREmitBatch ups" "abs_run_crd r = FlushAll \<longleftrightarrow> r = CRFlushAll"
  "abs_run_crd r = EmitFinal ups \<longleftrightarrow> r = CREmitFinal ups" "abs_run_crd r = Closing \<longleftrightarrow> r = CRClose"
  "abs_run_crd r = Returned \<longleftrightarrow> r = CRDone"
  by (cases r; simp)+

lemma abs_timer_iff_crd [simp]:
  "abs_timer_crd t = Fired c \<longleftrightarrow> t = CTFired c" "abs_timer_crd t = Marked \<longleftrightarrow> t = CTMarked"
  "abs_timer_crd t = Flushing \<longleftrightarrow> t = CTFlush" "abs_timer_crd t = Emitting ups \<longleftrightarrow> t = CTEmit ups"
  by (cases t; simp)+

section \<open>The critical sections under the abstraction\<close>

lemma entries_of_Nil_crd [simp]: "entries_of_crd [] = Map.empty"
  by (simp add: entries_of_crd_def fun_eq_iff)

lemma entries_of_Some_crd: "entries_of_crd m i = Some y \<longleftrightarrow> (\<exists>x. gm_get m i = Some x \<and> y = abs_entry_crd x)"
  by (auto simp: entries_of_crd_def)

lemma entries_of_put_crd [simp]: "entries_of_crd (gm_put i x m) = (entries_of_crd m)(i \<mapsto> abs_entry_crd x)"
  by (simp add: entries_of_crd_def fun_eq_iff)

lemma entries_of_del_crd [simp]: "entries_of_crd (gm_del i m) = (entries_of_crd m)(i := None)"
  by (simp add: entries_of_crd_def fun_eq_iff)

lemma dom_entries_of_crd [simp]: "dom (entries_of_crd m) = dom (gm_get m)"
  by (auto simp: entries_of_crd_def)

lemma ready_keys_entries_crd: "ready_keys (entries_of_crd m) = {i. is_ready_crd m i}"
  by (auto simp: ready_keys_def entries_of_Some_crd is_ready_crd_def split: option.splits)

lemma entries_of_empty_iff_crd: "entries_of_crd m = Map.empty \<longleftrightarrow> m = []"
  by (metis dom_entries_of_crd dom_eq_empty_conv gm_empty_iff)

lemma markReady_entries_crd [simp]: "entries_of_crd (pending_crd (markReady_crd c d)) = mark c (entries_of_crd (pending_crd d))"
  by (cases c) (auto simp: markReady_crd_def mark_def entries_of_crd_def fun_eq_iff abs_entry_crd_def split: option.splits)

lemma readyCount_card_crd:
  assumes "gm_wf (pending_crd d)"
  shows "readyCount_crd d = card (ready_keys (entries_of_crd (pending_crd d)))"
proof -
  let ?r = "filter (\<lambda>(_, x). pcc_ready x) (pending_crd d)"
  have "distinct (map fst ?r)" using assms by (simp add: gm_wf_def gm_keys_def distinct_map_filter)
  then have "card (fst ` set ?r) = length ?r" by (metis distinct_card length_map list.set_map)
  moreover have "fst ` set ?r = ready_keys (entries_of_crd (pending_crd d))"
    using gm_get_Some_iff [OF assms] by (force simp: ready_keys_def entries_of_Some_crd)
  ultimately show ?thesis by (simp add: readyCount_eq_crd)
qed

lemma stop_timers_one_crd:
  "stop_timers (entries_of_crd m) {i} A =
     (case gm_get m i of Some x \<Rightarrow> filter_mset (\<lambda>c. fst c \<noteq> pcc_timer x) A | None \<Rightarrow> A)"
  by (auto simp: stop_timers_def entries_of_crd_def split: option.splits)

lemma cancelPending_abs_crd:
  "mset (tm_armed (timers_crd (cancelPending_crd i d))) =
     stop_timers (entries_of_crd (pending_crd d)) {i} (mset (tm_armed (timers_crd d)))"
  by (simp add: stop_timers_one_crd cancelPending_crd_def split: option.splits)

lemma debounceAdd_abs_crd:
  "mset (tm_armed (timers_crd (debounceAdd r d))) =
     add_mset (tm_next (timers_crd d), (r, nextGen d + 1), tm_now (timers_crd d) + max 0 (sint (debounceWindow_crd d)))
       (stop_timers (entries_of_crd (pending_crd d)) {r} (mset (tm_armed (timers_crd d))))"
  by (simp add: stop_timers_one_crd debounceAdd_def Let_def split: option.splits)

section \<open>Collecting under the abstraction\<close>

lemma inst_at_entry_crd: "i \<in> dom (gm_get m) \<Longrightarrow> inst_at_crd m i = en_value (the (entries_of_crd m i))"
  by (auto simp: inst_at_crd_def entries_of_crd_def)

lemma map_inst_at_crd:
  "set ks \<subseteq> dom (gm_get m) \<Longrightarrow> map (inst_at_crd m) ks = map (\<lambda>k. en_value (the (entries_of_crd m k))) ks"
  by (intro map_cong inst_at_entry_crd) auto

lemma collectReady_abs_crd:
  assumes "range_order ord (pending_crd d)" "gm_wf (pending_crd d)" "collectReady_crd ord d = (ups, d')"
  shows "batch_of (entries_of_crd (pending_crd d)) (ready_keys (entries_of_crd (pending_crd d))) ups"
    and "entries_of_crd (pending_crd d') = entries_of_crd (pending_crd d) |` (- ready_keys (entries_of_crd (pending_crd d)))"
    and "gm_wf (pending_crd d')" "d' = d\<lparr>pending_crd := pending_crd d'\<rparr>"
proof -
  note spec = collectReady_spec_crd [OF assms]
  let ?ks = "filter (is_ready_crd (pending_crd d)) ord"
  have "distinct ?ks" "set ?ks = {i. is_ready_crd (pending_crd d) i}" "set ?ks \<subseteq> dom (gm_get (pending_crd d))"
    using range_order_distinct [OF assms(1,2)] range_order_set [OF assms(1)]
    by (auto simp: is_ready_crd_def split: option.splits)
  then show "batch_of (entries_of_crd (pending_crd d)) (ready_keys (entries_of_crd (pending_crd d))) ups"
    unfolding batch_of_def spec(1) ready_keys_entries_crd by (intro exI [of _ ?ks]) (simp add: map_inst_at_crd)
  show "entries_of_crd (pending_crd d') = entries_of_crd (pending_crd d) |` (- ready_keys (entries_of_crd (pending_crd d)))"
    by (auto simp: entries_of_crd_def [abs_def] spec(2) restrict_map_def ready_keys_entries_crd [unfolded entries_of_crd_def [abs_def]])
qed (rule collectReady_spec_crd [OF assms])+

lemma collectReady_reach_crd:
  assumes "gm_wf (pending_crd d)" "batch_of (entries_of_crd (pending_crd d)) (ready_keys (entries_of_crd (pending_crd d))) ups"
  shows "\<exists>ord d'. range_order ord (pending_crd d) \<and> collectReady_crd ord d = (ups, d')"
proof -
  obtain ks where ks: "distinct ks" "set ks = {i. is_ready_crd (pending_crd d) i}"
    "ups = map (\<lambda>k. en_value (the (entries_of_crd (pending_crd d) k))) ks"
    using assms(2) by (auto simp: batch_of_def ready_keys_entries_crd)
  then have sub: "set ks \<subseteq> dom (gm_get (pending_crd d))" by (auto simp: is_ready_crd_def split: option.splits)
  let ?ord = "ks @ filter (\<lambda>k. k \<notin> set ks) (gm_keys (pending_crd d))"
  have o: "range_order ?ord (pending_crd d)" using range_order_first [OF assms(1) ks(1) sub] .
  obtain ups' d' where c: "collectReady_crd ?ord d = (ups', d')" by (cases "collectReady_crd ?ord d")
  have "filter (is_ready_crd (pending_crd d)) ?ord = ks" using ks(2) by (simp add: filter_id_conv filter_empty_conv)
  then have "ups' = ups" using collectReady_spec_crd(1) [OF o assms(1) c] ks(3) map_inst_at_crd [OF sub] by simp
  with o c show ?thesis by blast
qed

lemma collect_all_loop_timers_crd:
  "distinct ord \<Longrightarrow> set ord \<subseteq> dom (gm_get pend) \<Longrightarrow>
   mset (tm_armed (snd (snd (collect_all_loop_crd ord pend t ups)))) =
     stop_timers (entries_of_crd pend) (set ord) (mset (tm_armed t))"
proof (induction ord pend t ups rule: collect_all_loop_crd.induct)
  case (1 pend t ups)
  show ?case by simp
next
  case (2 i ord pend t ups)
  then obtain x where x: "gm_get pend i = Some x" by auto
  have "set ord \<subseteq> dom (gm_get (gm_del i pend))" "distinct ord" using "2.prems" by (auto simp: gm_get_del_fun)
  note IH = "2.IH"(2) [OF x this(2,1)]
  show ?case
    using x IH "2.prems"
    by (auto simp: stop_timers_def entries_of_crd_def filter_filter_mset intro!: filter_mset_cong)
qed

lemma collectAll_abs_crd:
  assumes "range_order ord (pending_crd d)" "gm_wf (pending_crd d)" "collectAll_crd ord d = (ups, d')"
  shows "batch_of (entries_of_crd (pending_crd d)) (dom (entries_of_crd (pending_crd d))) ups"
    and "mset (tm_armed (timers_crd d')) = stop_timers (entries_of_crd (pending_crd d)) (dom (entries_of_crd (pending_crd d))) (mset (tm_armed (timers_crd d)))"
proof -
  note spec = collectAll_spec_crd [OF assms]
  have ord: "distinct ord" "set ord = dom (gm_get (pending_crd d))"
    using range_order_distinct [OF assms(1,2)] range_order_set [OF assms(1)] .
  then show "batch_of (entries_of_crd (pending_crd d)) (dom (entries_of_crd (pending_crd d))) ups"
    unfolding batch_of_def spec(1) by (intro exI [of _ ord]) (simp add: map_inst_at_crd)
  show "mset (tm_armed (timers_crd d')) = stop_timers (entries_of_crd (pending_crd d)) (dom (entries_of_crd (pending_crd d))) (mset (tm_armed (timers_crd d)))"
    using assms(3) collect_all_loop_timers_crd [OF ord(1), of "pending_crd d" "timers_crd d" "[]"] ord(2)
    by (auto simp: collectAll_crd_def split: if_splits prod.splits)
qed

lemma collectAll_reach_crd:
  assumes "gm_wf (pending_crd d)" "batch_of (entries_of_crd (pending_crd d)) (dom (entries_of_crd (pending_crd d))) ups"
  shows "\<exists>ord d'. range_order ord (pending_crd d) \<and> collectAll_crd ord d = (ups, d')"
proof -
  obtain ks where ks: "distinct ks" "set ks = dom (gm_get (pending_crd d))"
    "ups = map (\<lambda>k. en_value (the (entries_of_crd (pending_crd d) k))) ks"
    using assms(2) by (auto simp: batch_of_def)
  have "filter (\<lambda>k. k \<notin> set ks) (gm_keys (pending_crd d)) = []"
    by (simp add: filter_empty_conv ks(2) flip: set_gm_keys)
  then have o: "range_order ks (pending_crd d)" using range_order_first [OF assms(1) ks(1)] ks(2) by simp
  obtain ups' d' where c: "collectAll_crd ks d = (ups', d')" by (cases "collectAll_crd ks d")
  have "ups' = ups" using collectAll_spec_crd(1) [OF o assms(1) c] ks(2,3) map_inst_at_crd [of ks "pending_crd d"] by simp
  with o c show ?thesis by blast
qed

section \<open>Every step is a move\<close>

lemma collect_wf_crd:
  "collectReady_crd ord d = (ups, d') \<Longrightarrow> range_order ord (pending_crd d) \<Longrightarrow> gm_wf (pending_crd d) \<Longrightarrow> gm_wf (pending_crd d')"
  "collectAll_crd ord d = (ups, d') \<Longrightarrow> range_order ord (pending_crd d) \<Longrightarrow> gm_wf (pending_crd d) \<Longrightarrow> gm_wf (pending_crd d')"
  using collectReady_abs_crd(3) collectAll_spec_crd(2) by (blast, metis gm_wf_Nil)

lemma run_step_wf_crd: "run_step_crd ord s = Some s' \<Longrightarrow> pending_wf_crd s \<Longrightarrow> pending_wf_crd s'"
  by (cases "cs_run s")
    (auto simp: pending_wf_crd_def run_step_crd.simps split: if_splits prod.splits intro: collect_wf_crd)

lemma timer_step_wf_crd: "timer_step_crd k ord s = Some s' \<Longrightarrow> pending_wf_crd s \<Longrightarrow> pending_wf_crd s'"
  by (cases "cs_timers s ! k")
    (auto simp: pending_wf_crd_def timer_step_crd.simps markReady_wf_crd split: if_splits prod.splits intro: collect_wf_crd)

lemma pending_wf_step_crd: "cstep l s = Some s' \<Longrightarrow> pending_wf_crd s \<Longrightarrow> pending_wf_crd s'"
  by (cases l)
    (auto simp: run_step_wf_crd timer_step_wf_crd,
     auto simp: pending_wf_crd_def Let_def cancelPending_pending_crd debounceAdd_pending_crd
       split: if_splits option.splits prod.splits recv.splits intro: collect_wf_crd)

lemma emit_abs_crd [simp]:
  "cabs (s\<lparr>cs_buf := emitPayload_crd p (cs_buf s), cs_run := r\<rparr>) = (offer (payload_view_crd p) (cabs s))\<lparr>bs_run := abs_run_crd r\<rparr>"
  "cabs (s\<lparr>cs_buf := emitPayload_crd p (cs_buf s), cs_timers := ts\<rparr>) =
     (offer (payload_view_crd p) (cabs s))\<lparr>bs_goroutines := mset (map abs_timer_crd ts)\<rparr>"
  by (simp_all add: cabs_def offer_def csink.emit_view)

lemma close_abs_crd [simp]:
  "cabs (s\<lparr>cs_buf := closePayloads_crd (cs_buf s), cs_run := r\<rparr>) = (close_chan (cabs s))\<lparr>bs_run := abs_run_crd r\<rparr>"
  by (simp add: cabs_def close_chan_def csink.close_view)

lemma collect_abs_crd [simp]:
  assumes "pending_wf_crd s" "range_order ord (pending_crd (cs_buf s))" "collectReady_crd ord (cs_buf s) = (ups, d)"
  shows "cabs (s\<lparr>cs_buf := d, cs_run := r\<rparr>) =
      (cabs s)\<lparr>bs_entries := bs_entries (cabs s) |` (- ready_keys (bs_entries (cabs s))), bs_run := abs_run_crd r\<rparr>"
    "cabs (s\<lparr>cs_buf := d, cs_timers := ts\<rparr>) =
      (cabs s)\<lparr>bs_entries := bs_entries (cabs s) |` (- ready_keys (bs_entries (cabs s))),
               bs_goroutines := mset (map abs_timer_crd ts)\<rparr>"
    "batch_of (bs_entries (cabs s)) (ready_keys (bs_entries (cabs s))) ups"
  using collectReady_abs_crd [OF assms(2) assms(1) [unfolded pending_wf_crd_def] assms(3)] collect_frame_crd(1) [OF assms(3)]
  by (simp_all add: cabs_def)

lemma collect_all_abs_crd:
  assumes "pending_wf_crd s" "range_order ord (pending_crd (cs_buf s))" "collectAll_crd ord (cs_buf s) = (ups, d)"
  shows "cabs (s\<lparr>cs_buf := d, cs_run := r\<rparr>) =
      (cabs s)\<lparr>bs_entries := Map.empty,
               bs_armed := stop_timers (bs_entries (cabs s)) (dom (bs_entries (cabs s))) (bs_armed (cabs s)), bs_run := abs_run_crd r\<rparr>"
    "batch_of (bs_entries (cabs s)) (dom (bs_entries (cabs s))) ups"
  using collectAll_abs_crd [OF assms(2) assms(1) [unfolded pending_wf_crd_def] assms(3)] collect_frame_crd(2) [OF assms(3)]
    collectAll_spec_crd [OF assms(2) assms(1) [unfolded pending_wf_crd_def] assms(3)]
  by (simp_all add: cabs_def)

lemma run_step_sound_crd:
  assumes "run_step_crd ord s = Some s'" "pending_wf_crd s"
  shows "bmove (\<lambda>n. n) None (cabs s) (cabs s')"
proof (cases "cs_run s")
  case (CREmitDelete i)
  then show ?thesis using assms(1)
    by (auto simp: run_step_crd.simps payload_view_crd_def intro!: bm_run_emit)
next
  case (CREmitBatch ups)
  then show ?thesis using assms(1)
    by (auto simp: run_step_crd.simps payload_view_crd_def intro!: bm_run_emit)
next
  case (CREmitFinal ups)
  then show ?thesis using assms(1)
    by (auto simp: run_step_crd.simps payload_view_crd_def intro!: bm_run_emit)
next
  case CRClose
  then show ?thesis using assms(1) by (auto simp: run_step_crd.simps intro!: bm_close)
next
  case CRFlushAll
  obtain ups d where c: "collectAll_crd ord (cs_buf s) = (ups, d)" by (cases "collectAll_crd ord (cs_buf s)")
  with CRFlushAll assms(1) have o: "range_order ord (pending_crd (cs_buf s))"
    and s': "s' = s\<lparr>cs_buf := d, cs_run := (if ups = [] then CRClose else CREmitFinal ups)\<rparr>"
    by (auto simp: run_step_crd.simps split: if_splits)
  note A = collect_all_abs_crd [OF assms(2) o c]
  show ?thesis unfolding s' A(1)
    by (rule bmove_to [OF bm_collect_all [OF _ A(2)]]) (simp_all add: CRFlushAll)
qed (use assms(1) in \<open>simp_all add: run_step_crd.simps\<close>)

lemma timer_step_sound_crd:
  assumes "timer_step_crd k ord s = Some s'" "pending_wf_crd s"
  shows "bmove (\<lambda>n. n) None (cabs s) (cabs s')"
proof -
  have k: "k < length (cs_timers s)" using assms(1) by (auto simp: timer_step_crd.simps split: if_splits)
  note at = goroutine_at [OF k, of abs_timer_crd]
  show ?thesis
  proof (cases "cs_timers s ! k")
    case (CTFired c)
    then have "s' = s\<lparr>cs_buf := markReady_crd c (cs_buf s), cs_timers := (cs_timers s)[k := CTMarked]\<rparr>"
      using assms(1) k by (simp add: timer_step_crd.simps)
    then show ?thesis using CTFired at
      by (intro bmove_to [OF bm_mark [of c]]) (simp_all add: cabs_def)
  next
    case CTMarked
    have "int (readyCount_crd (cs_buf s)) = int (card (ready_keys (entries_of_crd (pending_crd (cs_buf s)))))"
      using assms(2) by (simp add: readyCount_card_crd pending_wf_crd_def)
    then show ?thesis using CTMarked assms(1) k at
      by (intro bmove_to [OF bm_check]) (auto simp: cabs_def timer_step_crd.simps split: if_splits)
  next
    case CTFlush
    obtain ups d where c: "collectReady_crd ord (cs_buf s) = (ups, d)" by (cases "collectReady_crd ord (cs_buf s)")
    with CTFlush assms(1) k have o: "range_order ord (pending_crd (cs_buf s))"
      and s': "s' = s\<lparr>cs_buf := d, cs_timers := (if ups = [] then drop_nth k (cs_timers s) else (cs_timers s)[k := CTEmit ups])\<rparr>"
      by (auto simp: timer_step_crd.simps split: if_splits)
    show ?thesis unfolding s' collect_abs_crd(2) [OF assms(2) o c]
      by (rule bmove_to [OF bm_timer_collect [OF _ collect_abs_crd(3) [OF assms(2) o c]]]) (use at CTFlush in simp_all)
  next
    case (CTEmit ups)
    then have "s' = s\<lparr>cs_buf := emitPayload_crd \<lparr>crd_Upserts = ups, crd_Deletes = []\<rparr> (cs_buf s), cs_timers := drop_nth k (cs_timers s)\<rparr>"
      using assms(1) k by (simp add: timer_step_crd.simps)
    then show ?thesis using CTEmit at
      by (intro bmove_to [OF bm_timer_emit [of ups]]) (simp_all add: payload_view_crd_def)
  qed
qed

lemma cstep_sound:
  assumes "pending_wf_crd s" "cstep l s = Some s'"
  shows "bmove (\<lambda>n. n) (crd_event_change l) (cabs s) (cabs s')"
proof (cases l)
  case (CLEvent e)
  show ?thesis
  proof (cases "ce_Type e = EventDelete")
    case True
    with assms(2) CLEvent show ?thesis
      by (auto simp: cabs_def cancelPending_pending_crd cancelPending_abs_crd split: if_splits
          intro!: bmove_to [OF bm_del])
  next
    case False
    with assms(2) CLEvent have "cs_run s = CRSelect"
      "s' = s\<lparr>cs_events := cs_events s @ [(tm_now (timers_crd (cs_buf s)), e)], cs_buf := debounceAdd (ce_CrdName e) (cs_buf s)\<rparr>"
      by (auto split: if_splits)
    then show ?thesis unfolding CLEvent crd_event_change.simps using False
      by (simp, intro bmove_to [OF bm_put [where g = "nextGen (cs_buf s) + 1" and
            w = "tm_now (timers_crd (cs_buf s)) + max 0 (sint (debounceWindow_crd (cs_buf s)))"]])
        (simp_all add: cabs_def debounceAdd_pending_crd debounceAdd_abs_crd abs_entry_crd_def)
  qed
next
  case (CLTick ord)
  obtain ups d where c: "collectReady_crd ord (cs_buf s) = (ups, d)" by (cases "collectReady_crd ord (cs_buf s)")
  with CLTick assms(2) have o: "range_order ord (pending_crd (cs_buf s))" and r: "cs_run s = CRSelect"
    and s': "s' = s\<lparr>cs_buf := d, cs_run := (if ups = [] then CRSelect else CREmitBatch ups)\<rparr>"
    by (auto split: if_splits)
  show ?thesis unfolding s' collect_abs_crd(1) [OF assms(1) o c] CLTick crd_event_change.simps
    by (rule bmove_to [OF bm_run_collect [OF _ collect_abs_crd(3) [OF assms(1) o c]]]) (simp_all add: r)
next
  case CLDone
  with assms(2) show ?thesis
    by (auto simp: cabs_def split: if_splits intro!: bmove_to [OF bm_shutdown])
next
  case (CLRun ord)
  with assms show ?thesis by (simp add: run_step_sound_crd)
next
  case (CLExpire i)
  with assms(2) obtain c t where e: "expire i (timers_crd (cs_buf s)) = Some (c, t)"
    and s': "s' = s\<lparr>cs_buf := (cs_buf s)\<lparr>timers_crd := t\<rparr>, cs_timers := cs_timers s @ [CTFired c]\<rparr>"
    by (auto split: option.splits)
  from expire_mset [OF e] obtain h w where "(h, c, w) \<in># mset (tm_armed (timers_crd (cs_buf s)))" "w \<le> tm_now (timers_crd (cs_buf s))"
    "mset (tm_armed t) = mset (tm_armed (timers_crd (cs_buf s))) - {#(h, c, w)#}" "tm_now t = tm_now (timers_crd (cs_buf s))"
    "tm_next t = tm_next (timers_crd (cs_buf s))" .
  then show ?thesis unfolding CLExpire crd_event_change.simps
    by (intro bmove_to [OF bm_expire [of h c w]]) (simp_all add: cabs_def s')
next
  case (CLTimer i ord)
  with assms show ?thesis by (simp add: timer_step_sound_crd)
next
  case (CLTime dt)
  with assms(2) show ?thesis by (auto simp: cabs_def intro!: bmove_to [OF bm_time [of _ _ dt]])
next
  case CLRecv
  with assms(2) show ?thesis
    by (auto simp: cabs_def chan_map_def chan_recv_Received split: recv.splits intro!: bmove_to [OF bm_recv])
qed

section \<open>Every silent move is a step\<close>

lemma goroutine_enabled_crd:
  assumes "abs_timer_crd t \<in># bs_goroutines (cabs s)"
  obtains k where "k < length (cs_timers s)" "cs_timers s ! k = t"
    "mset (map abs_timer_crd (drop_nth k (cs_timers s))) = bs_goroutines (cabs s) - {#abs_timer_crd t#}"
    "\<And>u. mset (map abs_timer_crd ((cs_timers s)[k := u])) = add_mset (abs_timer_crd u) (bs_goroutines (cabs s) - {#abs_timer_crd t#})"
proof -
  obtain t' where "t' \<in> set (cs_timers s)" "abs_timer_crd t' = abs_timer_crd t" using assms by auto
  then obtain k where k: "k < length (cs_timers s)" "abs_timer_crd (cs_timers s ! k) = abs_timer_crd t"
    by (metis in_set_conv_nth)
  have "cs_timers s ! k = t" using k(2) by (cases t) simp_all
  then show ?thesis using that [OF k(1)] goroutine_at [OF k(1), of abs_timer_crd] k(2) by simp
qed

lemma cstep_complete:
  assumes "bmove (\<lambda>n. n) None (cabs s) a" "pending_wf_crd s"
  shows "\<exists>l s'. cstep l s = Some s' \<and> crd_event_change l = None \<and> cabs s' = a"
  using assms(1)
proof (cases rule: bmove.cases)
  case (bm_run_collect ups)
  obtain ord d where c: "range_order ord (pending_crd (cs_buf s))" "collectReady_crd ord (cs_buf s) = (ups, d)"
    using collectReady_reach_crd [of "cs_buf s" ups] assms(2) bm_run_collect(3) by (auto simp: pending_wf_crd_def)
  show ?thesis
    by (rule exI [of _ "CLTick ord"])
      (use bm_run_collect c collect_abs_crd(1) [OF assms(2) c] in simp)
next
  case (bm_collect_all ups)
  obtain ord d where c: "range_order ord (pending_crd (cs_buf s))" "collectAll_crd ord (cs_buf s) = (ups, d)"
    using collectAll_reach_crd [of "cs_buf s" ups] assms(2) bm_collect_all(3) by (auto simp: pending_wf_crd_def)
  show ?thesis
    by (rule exI [of _ "CLRun ord"])
      (use bm_collect_all c collect_all_abs_crd(1) [OF assms(2) c] in \<open>simp add: run_step_crd.simps\<close>)
next
  case (bm_run_emit p r)
  then show ?thesis
    by (intro exI [of _ "CLRun []"], cases "cs_run s") (auto simp: run_step_crd.simps payload_view_crd_def)
next
  case bm_shutdown
  then show ?thesis by (intro exI [of _ CLDone]) (simp add: cabs_def)
next
  case bm_close
  then show ?thesis by (intro exI [of _ "CLRun []"]) (simp add: run_step_crd.simps)
next
  case (bm_expire h c w)
  then obtain i t where e: "expire i (timers_crd (cs_buf s)) = Some (c, t)"
    "mset (tm_armed t) = mset (tm_armed (timers_crd (cs_buf s))) - {#(h, c, w)#}"
    "tm_now t = tm_now (timers_crd (cs_buf s))" "tm_next t = tm_next (timers_crd (cs_buf s))"
    using expire_enabled [of h c w "timers_crd (cs_buf s)"] by auto
  then show ?thesis using bm_expire by (intro exI [of _ "CLExpire i"]) (simp add: cabs_def)
next
  case (bm_mark c)
  then obtain k where "k < length (cs_timers s)" "cs_timers s ! k = CTFired c"
    "mset (map abs_timer_crd ((cs_timers s)[k := CTMarked])) = add_mset Marked (bs_goroutines (cabs s) - {#Fired c#})"
    using goroutine_enabled_crd [of "CTFired c" s] by (metis abs_timer_crd.simps(1,2))
  with bm_mark(1) show ?thesis
    by (intro exI [of _ "CLTimer k []"]) (simp add: timer_step_crd.simps cabs_def)
next
  case bm_check
  then obtain k where k: "k < length (cs_timers s)" "cs_timers s ! k = CTMarked"
    "mset (map abs_timer_crd (drop_nth k (cs_timers s))) = bs_goroutines (cabs s) - {#Marked#}"
    "mset (map abs_timer_crd ((cs_timers s)[k := CTFlush])) = add_mset Flushing (bs_goroutines (cabs s) - {#Marked#})"
    using goroutine_enabled_crd [of CTMarked s] by (metis abs_timer_crd.simps(2,3))
  have "readyCount_crd (cs_buf s) = card (ready_keys (entries_of_crd (pending_crd (cs_buf s))))"
    using assms(2) by (simp add: readyCount_card_crd pending_wf_crd_def)
  with k bm_check(1) show ?thesis
    by (intro exI [of _ "CLTimer k []"]) (simp add: timer_step_crd.simps cabs_def)
next
  case (bm_timer_collect ups)
  obtain ord d where c: "range_order ord (pending_crd (cs_buf s))" "collectReady_crd ord (cs_buf s) = (ups, d)"
    using collectReady_reach_crd [of "cs_buf s" ups] assms(2) bm_timer_collect(3) by (auto simp: pending_wf_crd_def)
  obtain k where k: "k < length (cs_timers s)" "cs_timers s ! k = CTFlush"
    "mset (map abs_timer_crd (drop_nth k (cs_timers s))) = bs_goroutines (cabs s) - {#Flushing#}"
    "mset (map abs_timer_crd ((cs_timers s)[k := CTEmit ups])) = add_mset (Emitting ups) (bs_goroutines (cabs s) - {#Flushing#})"
    using goroutine_enabled_crd [of CTFlush s] bm_timer_collect(2) by (metis abs_timer_crd.simps(3,4))
  show ?thesis
    by (rule exI [of _ "CLTimer k ord"])
      (use k c collect_abs_crd(2) [OF assms(2) c] bm_timer_collect(1) in \<open>simp add: timer_step_crd.simps\<close>)
next
  case (bm_timer_emit ups)
  then obtain k where "k < length (cs_timers s)" "cs_timers s ! k = CTEmit ups"
    "mset (map abs_timer_crd (drop_nth k (cs_timers s))) = bs_goroutines (cabs s) - {#Emitting ups#}"
    using goroutine_enabled_crd [of "CTEmit ups" s] by (metis abs_timer_crd.simps(4))
  with bm_timer_emit(1) show ?thesis
    by (intro exI [of _ "CLTimer k []"]) (simp add: timer_step_crd.simps payload_view_crd_def)
next
  case (bm_time dt)
  then show ?thesis by (intro exI [of _ "CLTime dt"]) (simp add: cabs_def)
next
  case (bm_recv p ps)
  then obtain q qs where "ch_buf (crd_Payloads (cs_buf s)) = q # qs" "map payload_view_crd qs = ps"
    by (auto simp: map_eq_Cons_conv)
  with bm_recv(1) show ?thesis
    by (intro exI [of _ CLRecv]) (simp add: chan_recv_def cabs_def chan_map_def)
qed

interpretation cimpl: buffer_impl "\<lambda>n. n" cstep cabs crd_event_change pending_wf_crd
proof
  show "\<exists>s'. cstep l s = Some s'" if "crd_event_change l = Some c" "bs_run (cabs s) = Selecting" for l c s
    using that by (cases l) (auto simp: Let_def)
qed (blast intro: pending_wf_step_crd cstep_sound cstep_complete)+

end
