(* ===== verification/Buffer_Window.thy ===== *)
theory Buffer_Window
  imports Buffer_Invariants
begin

text \<open>
  The debounce window, for a buffer whose generations number its puts: a timer carries the number of its put and can
  only make the entry of that put ready, so no entry is ready before its own window has passed.
\<close>

fun put_of :: "('v \<Rightarrow> string) \<Rightarrow> int \<times> 'v change \<Rightarrow> (string \<times> int) list" where
  "put_of key (t, Put v) = [(key v, t)]"
| "put_of key (t, Del k) = []"

text \<open>The puts received so far, their keys with their times.\<close>

definition put_log :: "('v \<Rightarrow> string) \<Rightarrow> 'v bstate \<Rightarrow> (string \<times> int) list" where
  "put_log key s = concat (map (put_of key) (bs_log s))"

definition last_put :: "('v \<Rightarrow> string) \<Rightarrow> 'v bstate \<Rightarrow> string \<Rightarrow> int option" where
  "last_put key s k = map_of (rev (put_log key s)) k"

text \<open>\<open>g\<close> is the number of a put of \<open>k\<close> received at time \<open>t\<close>, counted from 1.\<close>

definition numbered :: "(string \<times> int) list \<Rightarrow> string \<Rightarrow> 64 word \<Rightarrow> int \<Rightarrow> bool" where
  "numbered l k g t \<longleftrightarrow> 0 < unat g \<and> unat g \<le> length l \<and> l ! (unat g - 1) = (k, t)"

definition timed :: "int \<Rightarrow> ('v \<Rightarrow> string) \<Rightarrow> 'v bstate \<Rightarrow> bool" where
  "timed W key s \<longleftrightarrow>
     (\<forall>k x. bs_entries s k = Some x \<longrightarrow>
        (\<exists>t. numbered (put_log key s) k (en_gen x) t \<and> last_put key s k = Some t \<and>
             (en_ready x \<longrightarrow> t + W \<le> bs_now s))) \<and>
     (\<forall>h k g w. (h, (k, g), w) \<in># bs_armed s \<longrightarrow> (\<exists>t. numbered (put_log key s) k g t \<and> t + W \<le> w)) \<and>
     (\<forall>k g. Fired (k, g) \<in># bs_goroutines s \<longrightarrow> (\<exists>t. numbered (put_log key s) k g t \<and> t + W \<le> bs_now s))"

lemma numbered_unique: "numbered l k g t \<Longrightarrow> numbered l k g t' \<Longrightarrow> t = t'"
  by (simp add: numbered_def)

lemma numbered_append: "numbered l k g t \<Longrightarrow> numbered (l @ l') k g t"
  by (auto simp: numbered_def nth_append)

lemma timed_entry:
  assumes "timed W key s" "bs_entries s k = Some x"
  obtains t where "numbered (put_log key s) k (en_gen x) t" "last_put key s k = Some t" "en_ready x \<longrightarrow> t + W \<le> bs_now s"
  using assms unfolding timed_def by blast

lemma timed_goroutine:
  assumes "timed W key s" "Fired (k, g) \<in># bs_goroutines s"
  obtains t where "numbered (put_log key s) k g t" "t + W \<le> bs_now s"
  using assms unfolding timed_def by blast

text \<open>A move that receives nothing, and leaves of the entries, timers and fired goroutines a part.\<close>

lemma timed_shrink:
  assumes "timed W key s" "bs_log s' = bs_log s" "bs_now s \<le> bs_now s'"
    and "\<And>k x. bs_entries s' k = Some x \<Longrightarrow> bs_entries s k = Some x"
    and "\<And>c. c \<in># bs_armed s' \<Longrightarrow> c \<in># bs_armed s"
    and "\<And>c. Fired c \<in># bs_goroutines s' \<Longrightarrow> Fired c \<in># bs_goroutines s"
  shows "timed W key s'"
proof -
  have l: "put_log key s' = put_log key s" "last_put key s' = last_put key s"
    using assms(2) by (simp_all add: put_log_def last_put_def fun_eq_iff)
  show ?thesis
    unfolding timed_def l
  proof (intro conjI allI impI)
    fix k x
    assume "bs_entries s' k = Some x"
    from timed_entry [OF assms(1) assms(4) [OF this]] obtain t where
      "numbered (put_log key s) k (en_gen x) t" "last_put key s k = Some t" "en_ready x \<longrightarrow> t + W \<le> bs_now s" .
    with assms(3) show "\<exists>t. numbered (put_log key s) k (en_gen x) t \<and> last_put key s k = Some t \<and>
        (en_ready x \<longrightarrow> t + W \<le> bs_now s')" by (intro exI [of _ t]) auto
  next
    fix h k g w
    assume "(h, (k, g), w) \<in># bs_armed s'"
    with assms(1,5) show "\<exists>t. numbered (put_log key s) k g t \<and> t + W \<le> w" unfolding timed_def by blast
  next
    fix k g
    assume "Fired (k, g) \<in># bs_goroutines s'"
    from timed_goroutine [OF assms(1) assms(6) [OF this]] obtain t where
      "numbered (put_log key s) k g t" "t + W \<le> bs_now s" .
    with assms(3) show "\<exists>t. numbered (put_log key s) k g t \<and> t + W \<le> bs_now s'" by (intro exI [of _ t]) auto
  qed
qed

lemma timed_mark:
  assumes "timed W key s" "Fired c \<in># bs_goroutines s"
    and s': "s' = s\<lparr>bs_entries := mark c (bs_entries s), bs_goroutines := add_mset Marked (bs_goroutines s - {#Fired c#})\<rparr>"
  shows "timed W key s'"
proof -
  obtain j g where c: "c = (j, g)" by (cases c)
  have "\<exists>t. numbered (put_log key s) k (en_gen x) t \<and> last_put key s k = Some t \<and> (en_ready x \<longrightarrow> t + W \<le> bs_now s)"
    if "mark c (bs_entries s) k = Some x" for k x
  proof -
    obtain y where y: "bs_entries s k = Some y" "en_gen x = en_gen y" "en_ready x \<longrightarrow> en_ready y \<or> k = j \<and> en_gen y = g"
      using \<open>mark c (bs_entries s) k = Some x\<close> by (auto simp: c mark_get split: option.splits if_splits)
    from timed_entry [OF assms(1) y(1)] obtain t where t: "numbered (put_log key s) k (en_gen y) t"
      "last_put key s k = Some t" "en_ready y \<longrightarrow> t + W \<le> bs_now s" .
    from timed_goroutine [OF assms(1)] assms(2) c obtain t' where t': "numbered (put_log key s) j g t'" "t' + W \<le> bs_now s"
      by blast
    have "t + W \<le> bs_now s" if "en_ready x"
      using that y(3) t(1,3) t' numbered_unique by blast
    with t(1,2) y(2) show ?thesis by auto
  qed
  moreover have "put_log key s' = put_log key s" "last_put key s' = last_put key s"
    by (simp_all add: put_log_def last_put_def s' fun_eq_iff)
  ultimately show ?thesis
    using assms(1) unfolding timed_def by (auto simp: s' dest: in_diffD)
qed

lemma timed_expire:
  assumes "timed W key s" "(h, c, w) \<in># bs_armed s" "w \<le> bs_now s"
    and s': "s' = s\<lparr>bs_armed := bs_armed s - {#(h, c, w)#}, bs_goroutines := add_mset (Fired c) (bs_goroutines s)\<rparr>"
  shows "timed W key s'"
proof -
  have "put_log key s' = put_log key s" "last_put key s' = last_put key s"
    by (simp_all add: put_log_def last_put_def s' fun_eq_iff)
  then show ?thesis
    using assms(1-3) unfolding timed_def by (cases c) (force simp: s' dest: in_diffD)
qed

lemma timed_silent: "bmove (key :: 'v \<Rightarrow> string) None s s' \<Longrightarrow> timed W key s \<Longrightarrow> timed W key s'"
proof (induction "None :: 'v change option" s s' rule: bmove.induct)
  case (bm_mark c s)
  then show ?case by (intro timed_mark [OF _ _ refl])
next
  case (bm_expire h c w s)
  then show ?case by (intro timed_expire [OF _ _ _ refl])
qed (erule timed_shrink; auto simp: kept_entry stop_timers_def dest: in_diffD split: if_splits)+

lemma timed_del:
  assumes "timed W key s"
    and s': "s' = s\<lparr>bs_log := bs_log s @ [(t, Del k)], bs_entries := (bs_entries s)(k := None),
          bs_armed := stop_timers (bs_entries s) {k} (bs_armed s), bs_run := r\<rparr>"
  shows "timed W key s'"
proof -
  have "put_log key s' = put_log key s" "last_put key s' = last_put key s"
    by (simp_all add: put_log_def last_put_def s' fun_eq_iff)
  then show ?thesis
    using assms(1) unfolding timed_def by (auto simp: s' in_stop_timers)
qed

lemma timed_put:
  assumes "timed W key s" "unat g = Suc (length (put_log key s))" "bs_now s + W \<le> w"
    and s': "s' = s\<lparr>bs_log := bs_log s @ [(bs_now s, Put v)],
          bs_entries := (bs_entries s)(key v \<mapsto> \<lparr>en_value = v, en_timer = h, en_ready = False, en_gen = g\<rparr>),
          bs_armed := add_mset (h, (key v, g), w) (stop_timers (bs_entries s) {key v} (bs_armed s)),
          bs_next := n\<rparr>"
  shows "timed W key s'"
proof -
  have l: "put_log key s' = put_log key s @ [(key v, bs_now s)]"
    "last_put key s' = (last_put key s)(key v \<mapsto> bs_now s)"
    by (simp_all add: put_log_def last_put_def s' fun_eq_iff)
  have new: "numbered (put_log key s') (key v) g (bs_now s)" using assms(2) by (simp add: numbered_def l nth_append)
  have old: "numbered (put_log key s') k g' t" if "numbered (put_log key s) k g' t" for k g' t
    unfolding l(1) using that by (rule numbered_append)
  show ?thesis
    unfolding timed_def
  proof (intro conjI allI impI)
    fix k x
    assume x: "bs_entries s' k = Some x"
    show "\<exists>t. numbered (put_log key s') k (en_gen x) t \<and> last_put key s' k = Some t \<and> (en_ready x \<longrightarrow> t + W \<le> bs_now s')"
    proof (cases "k = key v")
      case True
      with x have "en_gen x = g" "\<not> en_ready x" by (auto simp: s')
      with True new show ?thesis by (simp add: l(2))
    next
      case False
      with x have "bs_entries s k = Some x" by (simp add: s')
      from timed_entry [OF assms(1) this] obtain t where "numbered (put_log key s) k (en_gen x) t"
        "last_put key s k = Some t" "en_ready x \<longrightarrow> t + W \<le> bs_now s" .
      with old False show ?thesis by (intro exI [of _ t]) (simp add: l(2), simp add: s')
    qed
  next
    fix h' k g' w'
    assume "(h', (k, g'), w') \<in># bs_armed s'"
    then show "\<exists>t. numbered (put_log key s') k g' t \<and> t + W \<le> w'"
      using assms(1,3) new old unfolding timed_def by (auto simp: s' in_stop_timers) blast
  next
    fix k g'
    assume "Fired (k, g') \<in># bs_goroutines s'"
    then have "Fired (k, g') \<in># bs_goroutines s" by (simp add: s')
    from timed_goroutine [OF assms(1) this] obtain t where "numbered (put_log key s) k g' t" "t + W \<le> bs_now s" .
    with old show "\<exists>t. numbered (put_log key s') k g' t \<and> t + W \<le> bs_now s'"
      by (intro exI [of _ t]) (simp, simp add: s')
  qed
qed

end
