(* ===== verification/Crd_Window.thy ===== *)
theory Crd_Window
  imports Crd_Refinement Buffer_Window
begin

text \<open>
  The debounce window of the CRD buffer. The counter the buffer increments at every add numbers
  the adds, so the results of \<open>Buffer_Window\<close> apply. The counter has 64 bits; the statements are about
  histories with fewer than \<open>2 ^ 64\<close> adds.
\<close>

definition add_log :: "(int \<times> CrdEvent) list \<Rightarrow> (string \<times> int) list" where
  "add_log evs = map (\<lambda>(t, e). (ce_CrdName e, t)) (filter (\<lambda>(t, e). ce_Type e \<noteq> EventDelete) evs)"

definition last_add :: "(int \<times> CrdEvent) list \<Rightarrow> string \<Rightarrow> int option" where
  "last_add evs n = map_of (rev (add_log evs)) n"

lemma add_log_view: "put_log (\<lambda>n. n) (cabs s) = add_log (cs_events s)"
proof -
  have "concat (map (put_of (\<lambda>n. n)) (map (\<lambda>(t, e). (t, crd_change_of e)) evs)) = add_log evs" for evs
    by (induction evs) (auto simp: add_log_def)
  then show ?thesis by (simp only: put_log_def cabs_sel)
qed

definition window :: "csys \<Rightarrow> int" where
  "window s = max 0 (sint (debounceWindow_crd (cs_buf s)))"

definition window_inv :: "csys \<Rightarrow> bool" where
  "window_inv s \<longleftrightarrow> pending_wf_crd s \<and>
     (length (add_log (cs_events s)) < 2 ^ 64 \<longrightarrow>
        nextGen (cs_buf s) = of_nat (length (add_log (cs_events s))) \<and> timed (window s) (\<lambda>n. n) (cabs s))"

lemma add_log_snoc [simp]:
  "add_log (evs @ [(t, e)]) = add_log evs @ (if ce_Type e = EventDelete then [] else [(ce_CrdName e, t)])"
  by (simp add: add_log_def)

lemma silent_step_frame:
  assumes "cstep l s = Some s'" "crd_event_change l = None"
  shows "cs_events s' = cs_events s" "nextGen (cs_buf s') = nextGen (cs_buf s)" "window s' = window s"
  using assms
  by (cases l; auto simp: window_def run_step_crd.simps timer_step_crd.simps dest: collect_frame_crd
      split: if_splits option.splits prod.splits recv.splits crun_pc.splits ctimer_pc.splits)+

lemma window_inv_add:
  assumes "window_inv s" "cs_run s = CRSelect" "ce_Type e \<noteq> EventDelete"
    and s': "s' = s\<lparr>cs_events := cs_events s @ [(tm_now (timers_crd (cs_buf s)), e)],
                    cs_buf := debounceAdd (ce_CrdName e) (cs_buf s)\<rparr>"
    and "pending_wf_crd s'"
  shows "window_inv s'"
proof (cases "length (add_log (cs_events s')) < 2 ^ 64")
  case False
  then show ?thesis using assms(5) by (simp add: window_inv_def)
next
  case True
  let ?n = "ce_CrdName e" and ?log = "add_log (cs_events s)" and ?g = "nextGen (cs_buf s) + 1"
  let ?w = "tm_now (timers_crd (cs_buf s)) + max 0 (sint (debounceWindow_crd (cs_buf s)))"
  have len: "Suc (length ?log) < 2 ^ 64" using True assms(3) by (simp add: s')
  then have old: "nextGen (cs_buf s) = of_nat (length ?log)" "timed (window s) (\<lambda>n. n) (cabs s)"
    using assms(1) by (auto simp: window_inv_def)
  have "?g = of_nat (Suc (length ?log))" using old(1) by simp
  then have g: "unat ?g = Suc (length (put_log (\<lambda>n. n) (cabs s)))"
    using len unfolding add_log_view by (simp only: unat_of_nat) simp
  have "timed (window s) (\<lambda>n. n) (cabs s')"
    by (rule timed_put [where w = ?w and v = ?n, OF old(2) g])
      (use assms(2,3) in \<open>simp_all add: s' window_def cabs_def debounceAdd_pending_crd debounceAdd_abs_crd abs_entry_crd_def\<close>)
  moreover have "window s' = window s" by (simp add: s' window_def)
  moreover have "nextGen (cs_buf s') = of_nat (length (add_log (cs_events s')))"
    using old(1) assms(3) by (simp add: s')
  ultimately show ?thesis using assms(5) by (simp add: window_inv_def)
qed

lemma window_inv_delete:
  assumes "window_inv s" "cs_run s = CRSelect" "ce_Type e = EventDelete"
    and s': "s' = s\<lparr>cs_events := cs_events s @ [(tm_now (timers_crd (cs_buf s)), e)],
                    cs_buf := cancelPending_crd (ce_CrdName e) (cs_buf s), cs_run := CREmitDelete (ce_CrdName e)\<rparr>"
    and "pending_wf_crd s'"
  shows "window_inv s'"
proof -
  have "timed (window s) (\<lambda>n. n) (cabs s')" if "timed (window s) (\<lambda>n. n) (cabs s)"
    by (rule timed_del [where k = "ce_CrdName e", OF that])
      (use assms(3) in \<open>simp add: s' cabs_def cancelPending_pending_crd cancelPending_abs_crd\<close>)
  then show ?thesis using assms(1,3,5) by (simp add: window_inv_def s' window_def)
qed

lemma window_inv_step:
  assumes "window_inv s" "cstep l s = Some s'"
  shows "window_inv s'"
proof -
  have wf: "pending_wf_crd s" "pending_wf_crd s'"
    using assms pending_wf_step_crd by (auto simp: window_inv_def)
  show ?thesis
  proof (cases "crd_event_change l")
    case None
    have "bmove (\<lambda>n. n) None (cabs s) (cabs s')" using cstep_sound [OF wf(1) assms(2)] None by simp
    then show ?thesis
      using assms(1) wf(2) timed_silent silent_step_frame [OF assms(2) None] by (auto simp: window_inv_def)
  next
    case (Some c)
    then obtain e where l: "l = CLEvent e" by (cases l) auto
    show ?thesis
    proof (cases "ce_Type e = EventDelete")
      case True
      show ?thesis
        by (rule window_inv_delete [OF assms(1) _ True _ wf(2)])
          (use assms(2) l True in \<open>simp_all split: if_splits\<close>)
    next
      case False
      show ?thesis
        by (rule window_inv_add [OF assms(1) _ False _ wf(2)])
          (use assms(2) l False in \<open>simp_all split: if_splits\<close>)
    qed
  qed
qed

interpretation cwindow: invariant_system cstep window_inv
  by unfold_locales (rule window_inv_step)

lemma init_window: "window_inv (csys_init (NewCrdDebounceBuffer cfg))"
  by (simp add: window_inv_def pending_wf_crd_def add_log_def timed_def csys_init_def NewCrdDebounceBuffer_def)

end
