(* ===== verification/Crd_Replica.thy ===== *)
theory Crd_Replica
  imports Crd_Refinement
begin

text \<open>
  The CRD pipeline in its own terms: the definitions the events leave, what a receiver of the payloads
  knows, the batches on their way, and the calm schedules. The results come from the specification through the refinement.
\<close>

section \<open>The specification\<close>

text \<open>A receiver that applies the payloads in order knows a set of definitions.\<close>

definition crd_replica :: "CrdSyncPayload list \<Rightarrow> string set" where
  "crd_replica ps = fold (\<lambda>p known. (known \<union> set (crd_Upserts p)) - set (crd_Deletes p)) ps {}"

definition crd_state :: "CrdEvent list \<Rightarrow> string set" where
  "crd_state es =
     fold (\<lambda>e known. if ce_Type e = EventDelete then known - {ce_CrdName e} else insert (ce_CrdName e) known) es {}"

section \<open>The batches on their way\<close>

fun ctimer_batch :: "ctimer_pc \<Rightarrow> string list" where
  "ctimer_batch (CTEmit ups) = ups"
| "ctimer_batch _ = []"

definition ctimer_held :: "csys \<Rightarrow> string set" where
  "ctimer_held s = (\<Union>t \<in> set (cs_timers s). set (ctimer_batch t))"

text \<open>The schedules on which the receiver converges: the payload channel is never full, no delete
  arrives for a definition that a timer goroutine holds in a batch, and \<open>Run\<close> does not close the
  channel while a timer goroutine holds a batch.\<close>

definition crd_calm :: "csys \<Rightarrow> csys \<Rightarrow> bool" where
  "crd_calm s s' \<longleftrightarrow>
     ch_dropped (crd_Payloads (cs_buf s')) = ch_dropped (crd_Payloads (cs_buf s)) \<and>
     (\<forall>(t, e) \<in> set (drop (length (cs_events s)) (cs_events s')).
        ce_Type e = EventDelete \<longrightarrow> ce_CrdName e \<notin> ctimer_held s) \<and>
     (payloadsClosed_crd (cs_buf s') \<longrightarrow> ctimer_held s = {})"

definition crd_calm_step :: "clabel \<Rightarrow> csys \<Rightarrow> csys option" where
  "crd_calm_step = calmly crd_calm cstep"

section \<open>Under the abstraction\<close>

lemma dom_apply_changes: "dom (apply_changes (\<lambda>n. n) ups dels m) = (dom m \<union> set ups) - set dels"
proof -
  have "dom (fold (\<lambda>v m. m(v \<mapsto> v)) ups m) = dom m \<union> set ups" for m :: "'a \<rightharpoonup> 'a"
    by (induction ups arbitrary: m) auto
  moreover have "dom (fold (\<lambda>k m. m(k := None)) dels m) = dom m - set dels" for m :: "'a \<rightharpoonup> 'a"
    by (induction dels arbitrary: m) auto
  ultimately show ?thesis by (simp add: apply_changes_def)
qed

lemma crd_replica_view: "crd_replica ps = dom (received_state (\<lambda>n. n) (map payload_view_crd ps))"
proof (induction ps rule: rev_induct)
  case (snoc p ps)
  then show ?case by (simp add: crd_replica_def received_state_def payload_view_crd_def dom_apply_changes)
qed (simp add: crd_replica_def received_state_def)

lemma crd_state_view: "crd_state es = dom (changed_state (\<lambda>n. n) (map crd_change_of es))"
proof (induction es rule: rev_induct)
  case (snoc e es)
  then show ?case by (simp add: crd_state_def changed_state_def) (auto split: if_splits)
qed (simp add: crd_state_def changed_state_def)

lemma crd_log_view: "map snd (bs_log (cabs s)) = map crd_change_of (map snd (cs_events s))"
  by (simp add: case_prod_beta')

lemma crd_emitting_view: "Emitting ups \<in># bs_goroutines (cabs s) \<longleftrightarrow> CTEmit ups \<in> set (cs_timers s)"
  by (simp add: image_iff eq_commute [of "Emitting ups"])

lemma crd_held_view: "timer_held (cabs s) = ctimer_held s"
proof -
  have "v \<in> set (ctimer_batch t) \<longleftrightarrow> (\<exists>ups. t = CTEmit ups \<and> v \<in> set ups)" for v t by (cases t) simp_all
  then show ?thesis by (auto simp: timer_held_def ctimer_held_def crd_emitting_view simp del: cabs_sel(9))
qed

lemma inj_payload_view_crd: "inj payload_view_crd"
  by (rule injI) (simp add: payload_view_crd_def)

lemma payloads_eq_iff_crd: "map payload_view_crd ps = map payload_view_crd qs \<longleftrightarrow> ps = qs"
  by (simp add: inj_map_eq_map [OF inj_payload_view_crd])

lemma crd_buffer_events: "cstep l s = Some s' \<Longrightarrow> \<forall>e. l \<noteq> CLEvent e \<Longrightarrow> cs_events s' = cs_events s"
  by (cases l)
    (auto simp: run_step_crd.simps timer_step_crd.simps split: if_splits option.splits prod.splits recv.splits
      crun_pc.splits ctimer_pc.splits)

lemma crd_calm_view:
  assumes "cstep l s = Some s'"
  shows "crd_calm s s' \<longleftrightarrow> calm_move (\<lambda>n. n) (crd_event_change l) (cabs s) (cabs s')"
proof (cases "\<exists>e. l = CLEvent e")
  case True
  then obtain e where e: "l = CLEvent e" by blast
  then have "drop (length (cs_events s)) (cs_events s') = [(tm_now (timers_crd (cs_buf s)), e)]"
    using assms by (auto simp: Let_def split: if_splits)
  then show ?thesis
    by (auto simp: crd_calm_def calm_move_def e crd_held_view payloads_eq_iff_crd)
next
  case False
  then have "cs_events s' = cs_events s" "crd_event_change l = None"
    using crd_buffer_events [OF assms] by (auto, cases l, auto)
  then show ?thesis by (simp add: crd_calm_def calm_move_def crd_held_view payloads_eq_iff_crd)
qed

interpretation cflow: calm_buffer_impl "\<lambda>n. n" cstep cabs crd_event_change pending_wf_crd crd_calm
  by unfold_locales (rule crd_calm_view)

section \<open>Consequences\<close>

lemma crd_silent_events: "run_steps cstep ls s = Some s' \<Longrightarrow> cimpl.silent ls \<Longrightarrow> cs_events s' = cs_events s"
proof (erule cimpl.silent_history, assumption)
  show "cs_events s' = cs_events s" if "cstep l s = Some s'" "crd_event_change l = None" for l s s'
    using crd_buffer_events [OF that(1)] that(2) by (cases l) auto
qed

lemma fresh_crd_buffer:
  "fresh (cabs (csys_init (NewCrdDebounceBuffer cfg)))" "pending_wf_crd (csys_init (NewCrdDebounceBuffer cfg))"
  by (auto simp: fresh_def pending_wf_crd_def csys_init_def NewCrdDebounceBuffer_def intro: exI [of _ 100])

lemmas crd_reach_good = cimpl.reach_good [OF _ fresh_crd_buffer(2,1)]

lemma crd_good_channel:
  assumes "good (\<lambda>n. n) (cabs s)"
  shows "chan_ok (crd_Payloads (cs_buf s))" "\<not> ch_panic (crd_Payloads (cs_buf s))"
    "ch_closed (crd_Payloads (cs_buf s)) \<longleftrightarrow> cs_run s = CRDone"
proof -
  have inv: "chan_inv (cabs s)" using assms by (simp add: good_def)
  then have "suffix (map payload_view_crd (ch_buf (crd_Payloads (cs_buf s)))) (map payload_view_crd (ch_sent (crd_Payloads (cs_buf s))))"
    by (simp add: chan_inv_def bsink.sink_ok_def chan_ok_def)
  then have "suffix (ch_buf (crd_Payloads (cs_buf s))) (ch_sent (crd_Payloads (cs_buf s)))"
    by (rule suffix_map_inj [OF inj_payload_view_crd])
  with inv show "chan_ok (crd_Payloads (cs_buf s))" "\<not> ch_panic (crd_Payloads (cs_buf s))"
    "ch_closed (crd_Payloads (cs_buf s)) \<longleftrightarrow> cs_run s = CRDone"
    by (auto simp: chan_inv_def bsink.sink_ok_def chan_ok_def)
qed

lemmas crd_reach_converges =
  cflow.calm_system.reach_keeps [OF _ cflow.init_converges [OF fresh_crd_buffer(2,1)], folded crd_calm_step_def]

lemma crd_up_to_date:
  assumes "received_state (\<lambda>n. n) (ch_sent (bs_chan (cabs s))) = changed_state (\<lambda>n. n) (map snd (bs_log (cabs s)))"
  shows "crd_replica (ch_sent (crd_Payloads (cs_buf s))) = crd_state (map snd (cs_events s))"
  using arg_cong [OF assms, of dom] by (simp only: crd_replica_view crd_state_view crd_log_view cabs_sel(6) chan_map_sel)

lemma crd_idle_replica:
  assumes "cflow.converges s" "cs_run s = CRSelect \<or> cs_run s = CRDone" "ctimer_held s = {}" "pending_crd (cs_buf s) = []"
  shows "crd_replica (ch_sent (crd_Payloads (cs_buf s))) = crd_state (map snd (cs_events s))"
  using assms by (intro crd_up_to_date idle_state) (auto simp: cflow.converges_def crd_held_view)

lemma crd_converged_replica:
  assumes "cflow.converges s" "cs_run s = CRDone"
  shows "crd_replica (ch_sent (crd_Payloads (cs_buf s))) = crd_state (map snd (cs_events s))"
  using assms by (intro crd_up_to_date returned_state) (auto simp: cflow.converges_def)

end
