(* ===== verification/Crd_Properties.thy ===== *)
theory Crd_Properties
  imports Crd_Window Crd_Replica
begin

text \<open>
  The properties of the CRD debounce buffer over every interleaving of its goroutines: channel
  safety, well-formed payloads, the debounce window, progress, and convergence of what the
  receiver of the payloads knows.
\<close>

section \<open>The methods are uninterrupted schedules\<close>

lemma handleEvent_schedule_crd:
  assumes "cs_run s = CRSelect"
  shows "\<exists>ls. run_steps cstep ls s =
    Some (s\<lparr>cs_buf := handleEvent_crd e (cs_buf s),
            cs_events := cs_events s @ [(tm_now (timers_crd (cs_buf s)), e)]\<rparr>)"
proof (cases "ce_Type e = EventDelete")
  case True
  then show ?thesis using assms
    by (intro exI [of _ "[CLEvent e, CLRun []]"]) (simp add: handleEvent_crd_def run_step_crd.simps)
next
  case False
  then show ?thesis using assms by (intro exI [of _ "[CLEvent e]"]) (simp add: handleEvent_crd_def)
qed

lemma flushPending_schedule_crd:
  assumes "cs_run s = CRSelect" "range_order ord (pending_crd (cs_buf s))"
  shows "\<exists>ls. run_steps cstep ls s = Some (s\<lparr>cs_buf := flushPending_crd ord (cs_buf s)\<rparr>)"
proof -
  obtain ups d where c: "collectReady_crd ord (cs_buf s) = (ups, d)" by (cases "collectReady_crd ord (cs_buf s)")
  show ?thesis
  proof (cases "ups = []")
    case True
    then show ?thesis using assms c
      by (intro exI [of _ "[CLTick ord]"]) (simp add: flushPending_crd_def)
  next
    case False
    then show ?thesis using assms c
      by (intro exI [of _ "[CLTick ord, CLRun []]"]) (simp add: flushPending_crd_def run_step_crd.simps)
  qed
qed

lemma shutdown_schedule_crd:
  assumes "cs_run s = CRSelect" "range_order ord (pending_crd (cs_buf s))"
  shows "\<exists>ls. run_steps cstep ls s =
    Some (s\<lparr>cs_buf := closePayloads_crd (flushAllPending_crd ord (cs_buf s)), cs_run := CRDone\<rparr>)"
proof -
  obtain ups d where c: "collectAll_crd ord (cs_buf s) = (ups, d)" by (cases "collectAll_crd ord (cs_buf s)")
  show ?thesis
  proof (cases "ups = []")
    case True
    then show ?thesis using assms c
      by (intro exI [of _ "[CLDone, CLRun ord, CLRun []]"]) (simp add: flushAllPending_crd_def run_step_crd.simps)
  next
    case False
    then show ?thesis using assms c
      by (intro exI [of _ "[CLDone, CLRun ord, CLRun [], CLRun []]"])
        (simp add: flushAllPending_crd_def run_step_crd.simps)
  qed
qed

lemma timerFunc_schedule_crd:
  assumes "cs_timers s = ts @ [CTFired c]" "range_order ord (pending_crd (markReady_crd c (cs_buf s)))"
  shows "\<exists>ls. run_steps cstep ls s = Some (s\<lparr>cs_buf := timerFunc_crd ord c (cs_buf s), cs_timers := ts\<rparr>)"
proof -
  let ?d = "markReady_crd c (cs_buf s)" and ?k = "length ts"
  obtain ups d where col: "collectReady_crd ord ?d = (ups, d)" by (cases "collectReady_crd ord ?d")
  have k: "?k < length (cs_timers s)" "cs_timers s ! ?k = CTFired c" using assms(1) by simp_all
  have upd: "(cs_timers s)[?k := x] = ts @ [x]" for x using assms(1) by simp
  have drp: "drop_nth ?k (ts @ [x]) = ts" for x by (simp add: drop_nth_def)
  consider "int (readyCount_crd ?d) < maxBatchSize_crd ?d" | "maxBatchSize_crd ?d \<le> int (readyCount_crd ?d)" "ups = []"
    | "maxBatchSize_crd ?d \<le> int (readyCount_crd ?d)" "ups \<noteq> []" by linarith
  then show ?thesis
  proof cases
    case 1
    then show ?thesis using k
      by (intro exI [of _ "[CLTimer ?k [], CLTimer ?k []]"])
        (simp add: timer_step_crd.simps upd drp timerFunc_crd_def checkFlush_crd_def)
  next
    case 2
    then show ?thesis using k col assms(2)
      by (intro exI [of _ "[CLTimer ?k [], CLTimer ?k [], CLTimer ?k ord]"])
        (simp add: timer_step_crd.simps upd drp timerFunc_crd_def checkFlush_crd_def flushPending_crd_def)
  next
    case 3
    then show ?thesis using k col assms(2)
      by (intro exI [of _ "[CLTimer ?k [], CLTimer ?k [], CLTimer ?k ord, CLTimer ?k []]"])
        (simp add: timer_step_crd.simps upd drp timerFunc_crd_def checkFlush_crd_def flushPending_crd_def)
  qed
qed

section \<open>Sample schedules\<close>

definition crd_config :: "int \<Rightarrow> Config" where
  "crd_config batch =
     \<lparr>InstancesEndpoint = [], CapabilitiesEndpoint = ''http://c'', DebounceWindow = 10, BatchFlushInterval = 5,
      BatchMaxSize = batch, ResyncInterval = 0, WatchResourceTypes = [], ExcludeResourceTypes = [],
      APIBindAddress = [], LogLevel = []\<rparr>"

definition crd_start :: "int \<Rightarrow> csys" where
  "crd_start batch = csys_init (NewCrdDebounceBuffer (crd_config batch))"

definition crd_add :: "string \<Rightarrow> CrdEvent" where
  "crd_add n = \<lparr>ce_Type = EventAdd, ce_CrdName = n\<rparr>"

definition crd_delete :: "string \<Rightarrow> CrdEvent" where
  "crd_delete n = \<lparr>ce_Type = EventDelete, ce_CrdName = n\<rparr>"

definition crd_orderly :: "clabel list" where
  "crd_orderly =
     [CLEvent (crd_add ''a''), CLEvent (crd_add ''b''), CLTime 10, CLExpire 0, CLTimer 0 [], CLTimer 0 [],
      CLTimer 0 [''b'', ''a''], CLTimer 0 [], CLRecv, CLEvent (crd_delete ''a''), CLRun [],
      CLDone, CLRun [''b''], CLRun [], CLRun []]"

text \<open>A definition is added, its timer expires, and before the goroutine of the timer takes the
  lock the definition is deleted and added again.\<close>

definition crd_stale_timer :: "clabel list" where
  "crd_stale_timer =
     [CLEvent (crd_add ''a''), CLTime 10, CLExpire 0, CLEvent (crd_delete ''a''), CLRun [],
      CLEvent (crd_add ''a''), CLTimer 0 []]"

section \<open>Properties\<close>

text \<open>The CRD pipeline converges. On every schedule on which the payload channel is never full,
  no delete arrives for a definition that a timer goroutine still holds in a batch, and \<open>Run\<close>
  does not close the channel while a timer goroutine holds a batch: once \<open>Run\<close> has returned, a
  receiver that applies the payloads in the order they were sent knows exactly the definitions
  that were added and not deleted since.\<close>

theorem crd_pipeline_converges:
  assumes "reach crd_calm_step (csys_init (NewCrdDebounceBuffer cfg)) s" "cs_run s = CRDone"
  shows "crd_replica (ch_sent (crd_Payloads (cs_buf s))) = crd_state (map snd (cs_events s))"
  by (rule crd_converged_replica [OF crd_reach_converges [OF assms(1)] assms(2)])

lemma crd_orderly_calm:
  "ends_in crd_calm_step crd_orderly (crd_start 1)
     (\<lambda>s. cs_run s = CRDone \<and> ch_sent (crd_Payloads (cs_buf s)) =
        [\<lparr>crd_Upserts = [''a''], crd_Deletes = []\<rparr>, \<lparr>crd_Upserts = [], crd_Deletes = [''a'']\<rparr>,
         \<lparr>crd_Upserts = [''b''], crd_Deletes = []\<rparr>])"
  by code_simp

theorem crd_pipeline_converges_witness:
  "\<exists>s. reach crd_calm_step (csys_init (NewCrdDebounceBuffer (crd_config 1))) s \<and> cs_run s = CRDone \<and>
     crd_state (map snd (cs_events s)) = {''b''}"
proof -
  obtain s where r: "reach crd_calm_step (csys_init (NewCrdDebounceBuffer (crd_config 1))) s"
    and d: "cs_run s = CRDone" and sent: "ch_sent (crd_Payloads (cs_buf s)) =
        [\<lparr>crd_Upserts = [''a''], crd_Deletes = []\<rparr>, \<lparr>crd_Upserts = [], crd_Deletes = [''a'']\<rparr>,
         \<lparr>crd_Upserts = [''b''], crd_Deletes = []\<rparr>]"
    by (rule ends_inE [OF crd_orderly_calm]) (simp add: crd_start_def)
  have "crd_replica (ch_sent (crd_Payloads (cs_buf s))) = {''b''}"
    unfolding sent by (simp add: crd_replica_def)
  then show ?thesis using crd_pipeline_converges [OF r d] r d by auto
qed

text \<open>C9. The CRD buffer respects its debounce window: in every reachable state of a history with
  fewer than \<open>2 ^ 64\<close> adds, an entry that is ready was added last at a time at least one window ago.
  The buffer-wide generation counter keeps every stale timer from a replacement entry, also
  after a delete and a second add of the same name.\<close>

theorem crd_window_respected:
  assumes "reach cstep (csys_init (NewCrdDebounceBuffer cfg)) s"
    and "length (add_log (cs_events s)) < 2 ^ 64"
    and "gm_get (pending_crd (cs_buf s)) n = Some x" "pcc_ready x"
  shows "\<exists>t. last_add (cs_events s) n = Some t \<and>
    t + sint (debounceWindow_crd (cs_buf s)) \<le> tm_now (timers_crd (cs_buf s))"
proof -
  have "window_inv s" by (rule cwindow.reach_keeps [OF assms(1) init_window])
  then have timed: "timed (window s) (\<lambda>n. n) (cabs s)" using assms(2) by (simp add: window_inv_def)
  have "bs_entries (cabs s) n = Some (abs_entry_crd x)" using assms(3) by (simp add: entries_of_crd_def)
  from timed_entry [OF timed this] assms(4) obtain t where
    "last_add (cs_events s) n = Some t" "t + window s \<le> tm_now (timers_crd (cs_buf s))"
    by (auto simp: last_put_def last_add_def add_log_view)
  then show ?thesis by (auto simp: window_def)
qed

lemma crd_window_sample:
  "ends_in cstep (crd_stale_timer @ [CLTime 10, CLExpire 0, CLTimer 1 []]) (crd_start 50)
     (\<lambda>s. length (add_log (cs_events s)) = 2 \<and> debounceWindow_crd (cs_buf s) = 10 \<and>
        (case gm_get (pending_crd (cs_buf s)) ''a'' of Some x \<Rightarrow> pcc_ready x | None \<Rightarrow> False))"
  by code_simp

theorem crd_window_respected_witness:
  "\<exists>s t. reach cstep (csys_init (NewCrdDebounceBuffer (crd_config 50))) s \<and>
     last_add (cs_events s) ''a'' = Some t \<and> t + 10 \<le> tm_now (timers_crd (cs_buf s))"
proof -
  obtain s where r: "reach cstep (csys_init (NewCrdDebounceBuffer (crd_config 50))) s"
    and s: "length (add_log (cs_events s)) = 2" "debounceWindow_crd (cs_buf s) = 10"
      "case gm_get (pending_crd (cs_buf s)) ''a'' of Some x \<Rightarrow> pcc_ready x | None \<Rightarrow> False"
    by (rule ends_inE [OF crd_window_sample]) (simp add: crd_start_def)
  then obtain x where x: "gm_get (pending_crd (cs_buf s)) ''a'' = Some x" "pcc_ready x"
    by (auto split: option.splits)
  have "length (add_log (cs_events s)) < 2 ^ 64" using s(1) by simp
  from crd_window_respected [OF r this x] s(2) r show ?thesis by auto
qed

text \<open>The shutdown is final.\<close>

lemma crd_shutdown_final:
  "cstep l s = Some s' \<Longrightarrow> running (abs_run_crd (cs_run s')) \<Longrightarrow> l \<noteq> CLDone \<and> running (abs_run_crd (cs_run s))"
  by (cases l)
    (auto simp: run_step_crd.simps timer_step_crd.simps Let_def split: if_splits option.splits prod.splits recv.splits
      crun_pc.splits ctimer_pc.splits)

lemma crd_no_shutdown:
  "run_steps cstep ls s = Some s' \<Longrightarrow> running (abs_run_crd (cs_run s')) \<Longrightarrow>
     CLDone \<notin> set ls \<and> running (abs_run_crd (cs_run s))"
proof (induction ls arbitrary: s)
  case (Cons l ls)
  then obtain u where "cstep l s = Some u" "run_steps cstep ls u = Some s'"
    by (auto split: option.splits simp del: cstep.simps)
  with Cons.IH [of u] Cons.prems(2) crd_shutdown_final show ?case by auto
qed simp

text \<open>No pending CRD add is stuck: from every reachable state in which \<open>Run\<close> waits in its
  select, the buffer and its sender alone, without the shutdown and its flush, can go on until \<open>Run\<close> waits again and
  exactly one more payload has been sent, which contains that name.\<close>

theorem crd_pending_never_stuck:
  assumes "reach cstep (csys_init (NewCrdDebounceBuffer cfg)) s"
    and "cs_run s = CRSelect" "gm_get (pending_crd (cs_buf s)) i = Some x"
  shows "\<exists>ls s' ups. run_steps cstep ls s = Some s' \<and> CLDone \<notin> set ls \<and> cs_run s' = CRSelect \<and> cs_events s' = cs_events s \<and>
    ch_sent (crd_Payloads (cs_buf s')) = ch_sent (crd_Payloads (cs_buf s)) @ [\<lparr>crd_Upserts = ups, crd_Deletes = []\<rparr>] \<and>
    pcc_crdName x \<in> set ups"
proof -
  have "bs_entries (cabs s) i = Some (abs_entry_crd x)" using assms(3) by (simp add: entries_of_crd_def)
  then obtain ls s' ups where s': "run_steps cstep ls s = Some s'" "cimpl.silent ls" "cs_run s' = CRSelect"
    and ups: "pcc_crdName x \<in> set ups" "ch_sent (bs_chan (cabs s')) = ch_sent (bs_chan (cabs s)) @ [(ups, [])]"
    using cimpl.pending_flushes [OF crd_reach_good [OF assms(1)] cimpl.reach_wf [OF assms(1) fresh_crd_buffer(2)], of i]
      assms(2) by auto
  have "map payload_view_crd (ch_sent (crd_Payloads (cs_buf s'))) =
      map payload_view_crd (ch_sent (crd_Payloads (cs_buf s)) @ [\<lparr>crd_Upserts = ups, crd_Deletes = []\<rparr>])"
    using ups(2) by (simp add: payload_view_crd_def)
  then have "ch_sent (crd_Payloads (cs_buf s')) =
      ch_sent (crd_Payloads (cs_buf s)) @ [\<lparr>crd_Upserts = ups, crd_Deletes = []\<rparr>]"
    unfolding payloads_eq_iff_crd .
  moreover have "CLDone \<notin> set ls" using crd_no_shutdown [OF s'(1)] s'(3) by simp
  ultimately show ?thesis using s' crd_silent_events [OF s'(1,2)] ups(1) by blast
qed

lemma crd_stale_timer_ends:
  "ends_in cstep crd_stale_timer (crd_start 50)
     (\<lambda>s. cs_run s = CRSelect \<and>
        map_option (\<lambda>x. (pcc_crdName x, pcc_ready x)) (gm_get (pending_crd (cs_buf s)) ''a'') = Some (''a'', False))"
  by code_simp

theorem crd_pending_never_stuck_witness:
  "\<exists>s ls s' ups. reach cstep (csys_init (NewCrdDebounceBuffer (crd_config 50))) s \<and>
     run_steps cstep ls s = Some s' \<and> CLDone \<notin> set ls \<and> cs_events s' = cs_events s \<and>
     ch_sent (crd_Payloads (cs_buf s')) = ch_sent (crd_Payloads (cs_buf s)) @ [\<lparr>crd_Upserts = ups, crd_Deletes = []\<rparr>] \<and>
     ''a'' \<in> set ups"
proof -
  obtain s where r: "reach cstep (csys_init (NewCrdDebounceBuffer (crd_config 50))) s"
    and s: "cs_run s = CRSelect"
      "map_option (\<lambda>x. (pcc_crdName x, pcc_ready x)) (gm_get (pending_crd (cs_buf s)) ''a'') = Some (''a'', False)"
    by (rule ends_inE [OF crd_stale_timer_ends]) (simp add: crd_start_def)
  then obtain x where "gm_get (pending_crd (cs_buf s)) ''a'' = Some x" "pcc_crdName x = ''a''" by auto
  then show ?thesis using crd_pending_never_stuck [OF r s(1)] r by metis
qed

text \<open>C17. The CRD payload channel is never misused, and every payload put on it is well formed:
  whatever the interleaving, no send on a closed channel and no second close, the channel is
  closed exactly when \<open>Run\<close> has returned, and each payload is one delete alone, or a non-empty
  list of distinct names alone.\<close>

theorem crd_payloads_safe:
  assumes "reach cstep (csys_init (NewCrdDebounceBuffer cfg)) s"
  shows "\<not> ch_panic (crd_Payloads (cs_buf s)) \<and>
    length (ch_buf (crd_Payloads (cs_buf s))) \<le> ch_cap (crd_Payloads (cs_buf s)) \<and>
    suffix (ch_buf (crd_Payloads (cs_buf s))) (ch_sent (crd_Payloads (cs_buf s))) \<and>
    (ch_closed (crd_Payloads (cs_buf s)) \<longleftrightarrow> cs_run s = CRDone) \<and>
    list_all (\<lambda>p. (crd_Upserts p = [] \<and> length (crd_Deletes p) = 1 \<or>
      crd_Deletes p = [] \<and> crd_Upserts p \<noteq> [] \<and> distinct (crd_Upserts p)) \<and> \<not> IsEmpty_crd p)
      (ch_sent (crd_Payloads (cs_buf s)))"
proof -
  have batch: "batch_inv (\<lambda>n. n) (cabs s)" using crd_reach_good [OF assms] by (simp add: good_def)
  have "(crd_Upserts p = [] \<and> length (crd_Deletes p) = 1 \<or>
      crd_Deletes p = [] \<and> crd_Upserts p \<noteq> [] \<and> distinct (crd_Upserts p)) \<and> \<not> IsEmpty_crd p"
    if "p \<in> set (ch_sent (crd_Payloads (cs_buf s)))" for p
  proof -
    have "payload_ok (\<lambda>n. n) (payload_view_crd p)" using that batch by (simp add: batch_inv_def bs_offered_def)
    then show ?thesis by (auto simp: payload_ok_def batch_ok_def IsEmpty_crd_def payload_view_crd_def)
  qed
  then show ?thesis
    using crd_good_channel [OF crd_reach_good [OF assms]] by (simp add: chan_ok_def list_all_iff)
qed

theorem crd_payloads_safe_witness:
  "\<exists>s. reach cstep (csys_init (NewCrdDebounceBuffer (crd_config 50))) s \<and>
     map_option pcc_crdName (gm_get (pending_crd (cs_buf s)) ''a'') = Some ''a'' \<and>
     \<not> ch_closed (crd_Payloads (cs_buf s)) \<and> \<not> ch_panic (crd_Payloads (cs_buf s))"
proof -
  obtain s where r: "reach cstep (csys_init (NewCrdDebounceBuffer (crd_config 50))) s"
    and s: "cs_run s = CRSelect"
      "map_option (\<lambda>x. (pcc_crdName x, pcc_ready x)) (gm_get (pending_crd (cs_buf s)) ''a'') = Some (''a'', False)"
    by (rule ends_inE [OF crd_stale_timer_ends]) (simp add: crd_start_def)
  then show ?thesis using crd_payloads_safe [OF r] r by auto
qed

text \<open>The timer of the entry that a received add gets: armed for one window from now, with the name and the
  generation of the entry.\<close>

definition crd_timer_armed :: "csys \<Rightarrow> string \<Rightarrow> csys \<Rightarrow> bool" where
  "crd_timer_armed s n s' \<longleftrightarrow>
     (\<exists>x. gm_get (pending_crd (cs_buf s')) n = Some x \<and> pcc_crdName x = n \<and>
        (pcc_timer x, (n, pcc_gen x), tm_now (timers_crd (cs_buf s)) + max 0 (sint (debounceWindow_crd (cs_buf s))))
          \<in> set (tm_armed (timers_crd (cs_buf s'))))"

text \<open>C14. The CRD buffer implements the same specification of a debounce buffer (\<open>Buffer_Spec\<close>), with the names as
  keys and values: in every reachable state each step of its goroutines is a move of the specification, and each move that
  receives nothing is a step, so the buffer has no behaviour the specification forbids and none is missing. What the
  specification leaves open is the length of a timer: each add arms one for its entry that expires one debounce window later. Waiting in
  its select, \<open>Run\<close> accepts every event. And the methods of the code are among these behaviours: the uninterrupted
  schedules of a received event, of a flush tick, of the shutdown and of an expired timer end in exactly the state
  \<open>handleEvent\<close>, \<open>flushPending\<close>, \<open>flushAllPending\<close> followed by \<open>closePayloads\<close>, and the function
  of the timer compute.\<close>

theorem crd_buffer_refines_specification:
  assumes "reach cstep (csys_init (NewCrdDebounceBuffer cfg)) s"
  shows "(\<forall>l s'. cstep l s = Some s' \<longrightarrow> bmove (\<lambda>n. n) (crd_event_change l) (cabs s) (cabs s')) \<and>
    (\<forall>ev s'. cstep (CLEvent ev) s = Some s' \<longrightarrow> ce_Type ev \<noteq> EventDelete \<longrightarrow> crd_timer_armed s (ce_CrdName ev) s') \<and>
    (\<forall>a. bmove (\<lambda>n. n) None (cabs s) a \<longrightarrow> (\<exists>l s'. cstep l s = Some s' \<and> crd_event_change l = None \<and> cabs s' = a)) \<and>
    (cs_run s = CRSelect \<longrightarrow>
      (\<exists>ls. run_steps cstep ls s =
         Some (s\<lparr>cs_buf := handleEvent_crd e (cs_buf s),
                 cs_events := cs_events s @ [(tm_now (timers_crd (cs_buf s)), e)]\<rparr>)) \<and>
      (range_order ord (pending_crd (cs_buf s)) \<longrightarrow>
         (\<exists>ls. run_steps cstep ls s = Some (s\<lparr>cs_buf := flushPending_crd ord (cs_buf s)\<rparr>)) \<and>
         (\<exists>ls. run_steps cstep ls s =
            Some (s\<lparr>cs_buf := closePayloads_crd (flushAllPending_crd ord (cs_buf s)), cs_run := CRDone\<rparr>)))) \<and>
    (cs_timers s = ts @ [CTFired c] \<longrightarrow> range_order ord (pending_crd (markReady_crd c (cs_buf s))) \<longrightarrow>
      (\<exists>ls. run_steps cstep ls s = Some (s\<lparr>cs_buf := timerFunc_crd ord c (cs_buf s), cs_timers := ts\<rparr>)))"
proof -
  have wf: "pending_wf_crd s" using cimpl.reach_wf [OF assms fresh_crd_buffer(2)] .
  have "(\<forall>l s'. cstep l s = Some s' \<longrightarrow> bmove (\<lambda>n. n) (crd_event_change l) (cabs s) (cabs s')) \<and>
      (\<forall>a. bmove (\<lambda>n. n) None (cabs s) a \<longrightarrow> (\<exists>l s'. cstep l s = Some s' \<and> crd_event_change l = None \<and> cabs s' = a))"
    using cimpl.sound [OF wf] cimpl.complete [OF wf] by blast
  moreover have "crd_timer_armed s (ce_CrdName ev) s'"
    if "cstep (CLEvent ev) s = Some s'" "ce_Type ev \<noteq> EventDelete" for ev s'
    using that by (auto simp: Let_def crd_timer_armed_def debounceAdd_def split: if_splits option.splits)
  ultimately show ?thesis
    using handleEvent_schedule_crd [of s e] flushPending_schedule_crd [of s ord]
      shutdown_schedule_crd [of s ord] timerFunc_schedule_crd [of s ts c ord] by blast
qed

text \<open>A timer goroutine that has been started marks its entry, as the specification lets it.\<close>

lemma crd_fired_ends:
  "ends_in cstep [CLEvent (crd_add ''a''), CLTime 10, CLExpire 0] (crd_start 1)
     (\<lambda>s. cs_timers s = [CTFired (''a'', 1)] \<and>
        map_option (\<lambda>x. (pcc_crdName x, pcc_ready x, pcc_gen x)) (gm_get (pending_crd (cs_buf s)) ''a'') = Some (''a'', False, 1))"
  by code_simp

theorem crd_buffer_refines_specification_witness:
  "\<exists>s l s' x. reach cstep (csys_init (NewCrdDebounceBuffer (crd_config 1))) s \<and> cstep l s = Some s' \<and>
     gm_get (pending_crd (cs_buf s)) ''a'' = Some x \<and> \<not> pcc_ready x \<and>
     map_option en_ready (bs_entries (cabs s') ''a'') = Some True"
proof -
  obtain s where r: "reach cstep (csys_init (NewCrdDebounceBuffer (crd_config 1))) s"
    and s: "cs_timers s = [CTFired (''a'', 1)]"
      "map_option (\<lambda>x. (pcc_crdName x, pcc_ready x, pcc_gen x)) (gm_get (pending_crd (cs_buf s)) ''a'') = Some (''a'', False, 1)"
    by (rule ends_inE [OF crd_fired_ends]) (simp add: crd_start_def)
  from s(2) obtain x where x: "gm_get (pending_crd (cs_buf s)) ''a'' = Some x" "\<not> pcc_ready x" "pcc_gen x = 1" by auto
  let ?a = "(cabs s)\<lparr>bs_entries := mark (''a'', 1) (bs_entries (cabs s)),
      bs_goroutines := add_mset Marked (bs_goroutines (cabs s) - {#Fired (''a'', 1)#})\<rparr>"
  have "bmove (\<lambda>n. n) None (cabs s) ?a" by (rule bm_mark) (simp add: s)
  then obtain l s' where "cstep l s = Some s'" "cabs s' = ?a"
    using crd_buffer_refines_specification [OF r] by blast
  then show ?thesis using r x
    by (intro exI [of _ s] exI [of _ l] exI [of _ s'] exI [of _ x]) (simp add: mark_get entries_of_crd_def)
qed

end
