(* ===== verification/Pipeline_Properties.thy ===== *)
theory Pipeline_Properties
  imports Pipeline Debounce_Properties Crd_Properties
begin

text \<open>
  Properties of the assembled program: what \<open>main\<close> runs, that the sender loop hands every payload to the client once and
  in order, and what the composition of buffer, channel and sender loop delivers.
\<close>

section \<open>The sender loop\<close>

lemma runSenderLoop_result:
  "runSenderLoop send cancelled n c sent =
     (if ch_closed c then LoopReturned else LoopWaits,
      sent @ map (\<lambda>(i, p). let ctx = (if cancelled i then DrainContext else LiveContext) in (ctx, p, send ctx i p))
        (zip [n..<n + length (ch_buf c)] (ch_buf c)))"
proof (induction "ch_buf c" arbitrary: n c sent)
  case Nil
  have "chan_recv c = (if ch_closed c then RecvClosed else RecvBlocks)"
    by (simp add: chan_recv_def flip: Nil)
  then show ?case by (subst runSenderLoop.simps) (simp flip: Nil)
next
  case (Cons p ps)
  have r: "chan_recv c = Received p (c\<lparr>ch_buf := ps\<rparr>)" by (simp add: chan_recv_def flip: Cons.hyps(2))
  have z: "zip [n..<n + length (p # ps)] (p # ps) = (n, p) # zip [Suc n..<Suc n + length ps] ps"
    by (simp add: upt_rec)
  show ?case
    unfolding Cons.hyps(2) [symmetric] z
    by (subst runSenderLoop.simps) (simp add: r Let_def Cons.hyps(1) [of "c\<lparr>ch_buf := ps\<rparr>", simplified])
qed

text \<open>The payloads that have left the channel of a buffer.\<close>

definition received :: "'a chan \<Rightarrow> 'a list" where
  "received c = take (length (ch_sent c) - length (ch_buf c)) (ch_sent c)"

lemma received_buf: "chan_ok c \<Longrightarrow> received c @ ch_buf c = ch_sent c"
  by (auto simp: chan_ok_def suffix_def received_def)

section \<open>main\<close>

lemma add_all_Inr: "add_all fails rs added = Inr out \<longleftrightarrow> (\<forall>r \<in> set rs. \<not> fails (fst r)) \<and> out = added @ map fst rs"
  by (induction fails rs added rule: add_all.induct) auto

lemma add_all_Inl: "add_all fails rs added = Inl stop \<Longrightarrow> \<exists>msg out. stop = Exit1 msg out"
  by (induction fails rs added rule: add_all.induct) (auto split: if_splits)

section \<open>Properties\<close>

text \<open>C11. The sender loop hands every payload that waits in the channel to the client exactly once and in the order
  it was sent, whatever the client returns and whenever the context is cancelled: a failed
  payload does not stop the loop, a payload received after the cancellation is sent under a fresh context, and the loop
  ends exactly when the channel is closed and drained.\<close>

theorem sender_loop_delivers_in_order:
  "\<exists>journal. runSenderLoop send cancelled 0 c [] = (if ch_closed c then LoopReturned else LoopWaits, journal) \<and>
     map (\<lambda>(ctx, p, r). p) journal = ch_buf c \<and>
     (\<forall>i < length journal. case journal ! i of (ctx, p, r) \<Rightarrow>
        ctx = (if cancelled i then DrainContext else LiveContext) \<and> r = send ctx i p)"
  by (rule exI, rule conjI, rule runSenderLoop_result)
    (auto simp: Let_def case_prod_beta comp_def intro!: nth_equalityI)

theorem sender_loop_delivers_in_order_witness:
  "map (\<lambda>(ctx, p, r). (ctx, p)) (snd (runSenderLoop (\<lambda>ctx i p. ()) (\<lambda>i. 0 < i) 0
      ((make_chan 5)\<lparr>ch_buf := [''a'', ''b''], ch_closed := True\<rparr>) [])) =
     [(LiveContext, ''a''), (DrainContext, ''b'')]"
proof -
  let ?c = "(make_chan 5)\<lparr>ch_buf := [''a'', ''b''], ch_closed := True\<rparr>"
  obtain journal where l: "runSenderLoop (\<lambda>ctx i p. ()) (\<lambda>i. 0 < i) 0 ?c [] = (LoopReturned, journal)"
    "map (\<lambda>(ctx, p, r). p) journal = [''a'', ''b'']"
    "\<forall>i < length journal. case journal ! i of (ctx, p, r) \<Rightarrow> ctx = (if 0 < i then DrainContext else LiveContext) \<and> r = ()"
    using sender_loop_delivers_in_order [of "\<lambda>ctx i p. ()" "\<lambda>i. 0 < i" ?c] by auto
  have len: "length journal = 2" using arg_cong [OF l(2), of length] by simp
  obtain x y where xy: "journal = [x, y]" using len by (auto simp: numeral_2_eq_2 length_Suc_conv)
  have "fst x = LiveContext" "fst y = DrainContext" "fst (snd x) = ''a''" "fst (snd y) = ''b''"
    using l(3) [rule_format, of 0] l(3) [rule_format, of 1] l(2) by (auto simp: xy split: prod.splits)
  then show ?thesis by (simp add: l(1) xy case_prod_beta)
qed

text \<open>C23. \<open>main\<close> runs the pipeline the configuration describes, or exits: if no call fails the manager runs;
  and when it runs, it runs the watcher, one instance buffer with a sender that posts to the instances endpoint, and the
  API server on its address, and the CRD buffer with a sender that posts to the capabilities endpoint exactly when
  that endpoint is configured, which is also exactly when the watcher always watches definitions.\<close>

theorem main_runs_configured_pipeline:
  assumes "cfg = Load u env"
  shows "(main_program u fl env f = Ran rs \<longrightarrow>
      (\<exists>w. NewWatcher u None None cfg = Inr w \<and> watchCRDs w = (CapabilitiesEndpoint cfg \<noteq> []) \<and>
         rs = [WatcherRunnable w, DebouncerRunnable (NewDebounceBuffer cfg) w,
               SenderRunnable (New_client (InstancesEndpoint cfg) []) (NewDebounceBuffer cfg)] @
              (if CapabilitiesEndpoint cfg \<noteq> []
               then [CrdDebouncerRunnable (NewCrdDebounceBuffer cfg) w,
                     CrdSenderRunnable (New_client (CapabilitiesEndpoint cfg) []) (NewCrdDebounceBuffer cfg)] else []) @
              [ApiServerRunnable (APIBindAddress cfg) w])) \<and>
    (\<not> getConfigErr f \<and> \<not> newManagerErr f (manager_options fl) \<and> dynamicErr f = None \<and> discoveryErr f = None \<and>
     addErr f = (\<lambda>_. False) \<and> \<not> healthzErr f \<and> \<not> readyzErr f \<and> \<not> startErr f \<longrightarrow> (\<exists>rs. main_program u fl env f = Ran rs))"
proof (intro conjI impI)
  assume run: "main_program u fl env f = Ran rs"
  then obtain w where w: "NewWatcher u (dynamicErr f) (discoveryErr f) cfg = Inr w"
    unfolding main_program_def Let_def assms by (auto split: if_splits sum.splits)
  then have "dynamicErr f = None" "discoveryErr f = None"
    by (auto simp: NewWatcher_def split: option.splits)
  with w have w': "NewWatcher u None None cfg = Inr w" "watchCRDs w = (CapabilitiesEndpoint cfg \<noteq> [])"
    by (auto simp: NewWatcher_def)
  have "add_all (addErr f) (main_runnables cfg w) [] = Inr rs"
    using run w unfolding main_program_def Let_def assms [symmetric]
    by (auto split: if_splits sum.splits dest: add_all_Inl)
  then have "rs = map fst (main_runnables cfg w)" by (simp add: add_all_Inr)
  with w' show "\<exists>w. NewWatcher u None None cfg = Inr w \<and> watchCRDs w = (CapabilitiesEndpoint cfg \<noteq> []) \<and>
         rs = [WatcherRunnable w, DebouncerRunnable (NewDebounceBuffer cfg) w,
               SenderRunnable (New_client (InstancesEndpoint cfg) []) (NewDebounceBuffer cfg)] @
              (if CapabilitiesEndpoint cfg \<noteq> []
               then [CrdDebouncerRunnable (NewCrdDebounceBuffer cfg) w,
                     CrdSenderRunnable (New_client (CapabilitiesEndpoint cfg) []) (NewCrdDebounceBuffer cfg)] else []) @
              [ApiServerRunnable (APIBindAddress cfg) w]"
    by (simp add: main_runnables_def wrapWatcher_def wrapDebouncer_def wrapSender_def wrapCrdDebouncer_def
        wrapCrdSender_def Let_def)
next
  assume ok: "\<not> getConfigErr f \<and> \<not> newManagerErr f (manager_options fl) \<and> dynamicErr f = None \<and> discoveryErr f = None \<and>
     addErr f = (\<lambda>_. False) \<and> \<not> healthzErr f \<and> \<not> readyzErr f \<and> \<not> startErr f"
  have "add_all (\<lambda>_. False) rs [] = Inr (map fst rs)" for rs by (simp add: add_all_Inr)
  with ok show "\<exists>rs. main_program u fl env f = Ran rs"
    by (simp add: main_program_def NewWatcher_def Let_def)
qed

definition no_failures :: failures where
  "no_failures = \<lparr>getConfigErr = False, newManagerErr = (\<lambda>_. False), dynamicErr = None, discoveryErr = None, addErr = (\<lambda>_. False),
     healthzErr = False, readyzErr = False, startErr = False\<rparr>"

theorem main_runs_configured_pipeline_witness:
  "\<exists>rs w. main_program id flag_defaults (\<lambda>_. '''') no_failures = Ran rs \<and> \<not> watchCRDs w \<and>
     rs = [WatcherRunnable w, DebouncerRunnable (NewDebounceBuffer (Load id (\<lambda>_. ''''))) w,
           SenderRunnable (New_client ''http://localhost:3000/api/v1/instances/sync'' []) (NewDebounceBuffer (Load id (\<lambda>_. ''''))),
           ApiServerRunnable '':8082'' w]"
proof -
  let ?env = "\<lambda>_. ''''"
  obtain rs where rs: "main_program id flag_defaults ?env no_failures = Ran rs"
    using main_runs_configured_pipeline [OF refl, of id flag_defaults ?env no_failures] by (auto simp: no_failures_def)
  have l: "CapabilitiesEndpoint (Load id ?env) = []"
    "InstancesEndpoint (Load id ?env) = ''http://localhost:3000/api/v1/instances/sync''"
    "APIBindAddress (Load id ?env) = '':8082''"
    by (simp_all add: Load_def envOrDefault_def)
  from main_runs_configured_pipeline [OF refl, of id flag_defaults ?env no_failures rs] rs obtain w where
    "watchCRDs w = (CapabilitiesEndpoint (Load id ?env) \<noteq> [])"
    "rs = [WatcherRunnable w, DebouncerRunnable (NewDebounceBuffer (Load id ?env)) w,
               SenderRunnable (New_client (InstancesEndpoint (Load id ?env)) []) (NewDebounceBuffer (Load id ?env))] @
              (if CapabilitiesEndpoint (Load id ?env) \<noteq> []
               then [CrdDebouncerRunnable (NewCrdDebounceBuffer (Load id ?env)) w,
                     CrdSenderRunnable (New_client (CapabilitiesEndpoint (Load id ?env)) []) (NewCrdDebounceBuffer (Load id ?env))] else []) @
              [ApiServerRunnable (APIBindAddress (Load id ?env)) w]"
    by blast
  then have "\<not> watchCRDs w" "rs = [WatcherRunnable w, DebouncerRunnable (NewDebounceBuffer (Load id ?env)) w,
      SenderRunnable (New_client ''http://localhost:3000/api/v1/instances/sync'' []) (NewDebounceBuffer (Load id ?env)), ApiServerRunnable '':8082'' w]"
    unfolding l by simp_all
  with rs show ?thesis by blast
qed

lemma delivered_all:
  assumes "chan_ok c" "runSenderLoop send cancelled n c [] = (e, journal)"
  shows "received c @ map (\<lambda>(ctx, p, r). p) journal = ch_sent c" "e = LoopReturned \<longleftrightarrow> ch_closed c"
proof -
  have "map (\<lambda>(ctx, p, r). p) journal = ch_buf c"
    using assms(2) runSenderLoop_result [of send cancelled n c "[]"]
    by (auto simp: Let_def case_prod_beta comp_def intro!: nth_equalityI)
  then show "received c @ map (\<lambda>(ctx, p, r). p) journal = ch_sent c" using received_buf [OF assms(1)] by simp
  show "e = LoopReturned \<longleftrightarrow> ch_closed c"
    using assms(2) runSenderLoop_result [of send cancelled n c "[]"] by (auto split: if_splits)
qed

text \<open>C4. End to end, from the events to the receiver: after a calm schedule on which \<open>Run\<close> has returned, the sender loop
  drains the channel and returns, and the payloads it handed to the client, those received before the shutdown
  first, describe exactly the state of the cluster the events report: a receiver that gets them all in this order has the
  last state of every resource and no deleted one.\<close>

theorem instances_end_to_end:
  assumes "reach calm_step (dsys_init (NewDebounceBuffer cfg)) s" "ds_run s = RDone"
    and "runSenderLoop send cancelled n (Payloads (ds_buf s)) [] = (e, journal)"
  shows "e = LoopReturned \<and>
    replica (received (Payloads (ds_buf s)) @ map (\<lambda>(ctx, p, r). p) journal) = cluster_state (map snd (ds_events s))"
proof -
  have inv: "dconverge.converges s" using reach_converges [OF assms(1)] .
  then have "chan_ok (Payloads (ds_buf s))" "ch_closed (Payloads (ds_buf s))"
    using good_channel [of s] assms(2) by (simp_all add: dconverge.converges_def)
  moreover have "replica (ch_sent (Payloads (ds_buf s))) = cluster_state (map snd (ds_events s))"
    using converged_replica [OF inv assms(2)] .
  ultimately show ?thesis using delivered_all [OF _ assms(3)] by simp
qed

theorem instances_end_to_end_witness:
  "\<exists>s. reach calm_step (dsys_init (NewDebounceBuffer (sample_config 1))) s \<and> ds_run s = RDone \<and>
     replica (received (Payloads (ds_buf s)) @
       map (\<lambda>(ctx, p, r). p) (snd (runSenderLoop (\<lambda>ctx i p. ()) (\<lambda>_. True) 0 (Payloads (ds_buf s)) []))) ''x'' =
     Some (sample_instance ''x'' ''2'')"
proof -
  obtain s where r: "reach calm_step (dsys_init (NewDebounceBuffer (sample_config 1))) s"
    and d: "ds_run s = RDone"
    and ev: "map snd (ds_events s) =
      [add_event ''x'' ''1'', add_event ''y'' ''1'', add_event ''x'' ''2'', delete_event ''y'']"
    by (rule ends_inE [OF orderly_calm]) (simp add: sample_start_def)
  obtain e journal where l: "runSenderLoop (\<lambda>ctx i p. ()) (\<lambda>_. True) 0 (Payloads (ds_buf s)) [] = (e, journal)"
    by (cases "runSenderLoop (\<lambda>ctx i p. ()) (\<lambda>_. True) 0 (Payloads (ds_buf s)) []")
  have "cluster_state (map snd (ds_events s)) ''x'' = Some (sample_instance ''x'' ''2'')"
    unfolding ev by (simp add: cluster_state_def apply_event_def add_event_def delete_event_def sample_instance_def)
  then show ?thesis using instances_end_to_end [OF r d l] r d l by auto
qed

text \<open>C15. The same for the definitions, with \<open>Send\<close> itself: after a calm schedule on which \<open>Run\<close> has returned, the
  \<open>Start\<close> method of the CRD sender drains the channel and returns, whatever the network does and whenever the context is cancelled,
  and the payloads it handed to \<open>Send\<close>, those received before first, leave a receiver with exactly the definitions that
  were added and not deleted since.\<close>

theorem crds_end_to_end:
  assumes "reach crd_calm_step (csys_init (NewCrdDebounceBuffer cfg)) s" "cs_run s = CRDone"
    and "Start_crdSender c worlds cancelled (cs_buf s) = (e, journal)"
  shows "e = LoopReturned \<and>
    crd_replica (received (crd_Payloads (cs_buf s)) @ map (\<lambda>(ctx, p, r). p) journal) = crd_state (map snd (cs_events s)) \<and>
    (\<forall>i < length journal. case journal ! i of (ctx, p, r) \<Rightarrow>
       ctx = (if cancelled i then DrainContext else LiveContext) \<and>
       r = Send IsEmpty_crd (\<lambda>p. Inr (json_CrdSyncPayload p)) c (worlds ctx i) (Payload_of p))"
proof -
  have inv: "cflow.converges s" using crd_reach_converges [OF assms(1)] .
  then have "chan_ok (crd_Payloads (cs_buf s))" "ch_closed (crd_Payloads (cs_buf s))"
    using crd_good_channel [of s] assms(2) by (simp_all add: cflow.converges_def)
  moreover have "crd_replica (ch_sent (crd_Payloads (cs_buf s))) = crd_state (map snd (cs_events s))"
    using crd_converged_replica [OF inv assms(2)] .
  moreover have "\<forall>i < length journal. case journal ! i of (ctx, p, r) \<Rightarrow>
       ctx = (if cancelled i then DrainContext else LiveContext) \<and>
       r = Send IsEmpty_crd (\<lambda>p. Inr (json_CrdSyncPayload p)) c (worlds ctx i) (Payload_of p)"
    using assms(3) unfolding Start_crdSender_def runSenderLoop_result by (auto simp: Let_def)
  ultimately show ?thesis using delivered_all [OF _ assms(3) [unfolded Start_crdSender_def]] by simp
qed

theorem crds_end_to_end_witness:
  "\<exists>s journal. reach crd_calm_step (csys_init (NewCrdDebounceBuffer (crd_config 1))) s \<and> cs_run s = CRDone \<and>
     Start_crdSender (New_client ''http://x'' []) (\<lambda>_ _. sample_world [503, 200]) (\<lambda>i. 0 < i) (cs_buf s) = (LoopReturned, journal) \<and>
     crd_replica (received (crd_Payloads (cs_buf s)) @ map (\<lambda>(ctx, p, r). p) journal) = {''b''}"
proof -
  obtain s where r: "reach crd_calm_step (csys_init (NewCrdDebounceBuffer (crd_config 1))) s"
    and d: "cs_run s = CRDone" and sent: "ch_sent (crd_Payloads (cs_buf s)) =
        [\<lparr>crd_Upserts = [''a''], crd_Deletes = []\<rparr>, \<lparr>crd_Upserts = [], crd_Deletes = [''a'']\<rparr>,
         \<lparr>crd_Upserts = [''b''], crd_Deletes = []\<rparr>]"
    by (rule ends_inE [OF crd_orderly_calm]) (simp add: crd_start_def)
  obtain e journal where l:
    "Start_crdSender (New_client ''http://x'' []) (\<lambda>_ _. sample_world [503, 200]) (\<lambda>i. 0 < i) (cs_buf s) = (e, journal)"
    by (cases "Start_crdSender (New_client ''http://x'' []) (\<lambda>_ _. sample_world [503, 200]) (\<lambda>i. 0 < i) (cs_buf s)")
  have "crd_replica (ch_sent (crd_Payloads (cs_buf s))) = {''b''}" unfolding sent by (simp add: crd_replica_def)
  then have "crd_state (map snd (cs_events s)) = {''b''}"
    using crd_converged_replica [OF crd_reach_converges [OF r] d] by simp
  then show ?thesis using crds_end_to_end [OF r d l] r d l by auto
qed

section \<open>Where the program departs from its documentation\<close>

text \<open>The environment of the README's Helm example: a list of excluded types that does not name the
  definitions, and no capabilities endpoint.\<close>

definition readme_env :: environment where
  "readme_env key = (if key = ''EXCLUDE_RESOURCE_TYPES'' then ''events,leases,endpointslices,secrets'' else [])"

definition crd_discovery :: "(string \<times> APIResource list) list" where
  "crd_discovery = [(''apiextensions.k8s.io/v1'',
     [\<lparr>ar_Name = ''customresourcedefinitions'', ar_Verbs = [''get'', ''list'', ''watch'']\<rparr>])]"

lemma crd_adds_fill:
  assumes "\<not> ch_closed (stopCh w)" "\<not> ch_closed (CrdEvents w)" "length (ch_buf (CrdEvents w)) + n \<le> ch_cap (CrdEvents w)"
  shows "\<exists>w'. run_callbacks (replicate n (False, OnAdd (Unstructured test_crd))) w = Some w' \<and>
    \<not> ch_closed (stopCh w') \<and> \<not> ch_closed (CrdEvents w') \<and> ch_cap (CrdEvents w') = ch_cap (CrdEvents w) \<and>
    length (ch_buf (CrdEvents w')) = length (ch_buf (CrdEvents w)) + n"
  using assms
proof (induction n arbitrary: w)
  case 0
  then show ?case by simp
next
  case (Suc n)
  let ?e = "\<lparr>ce_Type = EventAdd, ce_CrdName = GetName test_crd\<rparr>"
  let ?v = "w\<lparr>CrdEvents := chan_push ?e (CrdEvents w)\<rparr>"
  have "run_callback False (OnAdd (Unstructured test_crd)) w = Some ?v"
    using Suc.prems IsCRD_test_crd by (simp add: AddFunc_def emitCrd_running_room chan_room_def)
  moreover obtain w' where "run_callbacks (replicate n (False, OnAdd (Unstructured test_crd))) ?v = Some w'"
    "\<not> ch_closed (stopCh w')" "\<not> ch_closed (CrdEvents w')" "ch_cap (CrdEvents w') = ch_cap (CrdEvents w)"
    "length (ch_buf (CrdEvents w')) = length (ch_buf (CrdEvents w)) + Suc n"
    using Suc.IH [of ?v] Suc.prems by auto
  ultimately show ?case by auto
qed

text \<open>C39. Without a capabilities endpoint nothing receives CRD events, and they are not dropped: with the excluded types of
  the README's own example, the program runs no CRD buffer, discovery still watches the definitions, and
  after 1000 adds of definitions the channel is full, so the callback for the next deletion of a definition blocks
  its informer and, as nothing drains the channel, never returns while the watcher runs.\<close>

theorem crd_delete_blocks_without_pipeline:
  "\<exists>w w'. NewWatcher id None None (Load id readme_env) = Inr w \<and>
     (\<forall>d v. CrdDebouncerRunnable d v \<notin> fst ` set (main_runnables (Load id readme_env) w)) \<and>
     crdGVR \<in> set (discoverResources id (\<lambda>_. Some (''apiextensions.k8s.io'', ''v1'')) crd_discovery w) \<and>
     run_callbacks (replicate 1000 (False, OnAdd (Unstructured test_crd))) w = Some w' \<and>
     (\<forall>pick. run_callback pick (OnDelete (Unstructured test_crd)) w' = None)"
proof -
  obtain w where w: "NewWatcher id None None (Load id readme_env) = Inr w"
    by (simp add: NewWatcher_def)
  then have f: "\<not> ch_closed (stopCh w)" "\<not> ch_closed (CrdEvents w)" "ch_buf (CrdEvents w) = []" "ch_cap (CrdEvents w) = 1000"
    by (auto simp: NewWatcher_def)
  have "CapabilitiesEndpoint (Load id readme_env) = []"
    by (simp add: Load_def envOrDefault_def readme_env_def)
  then have runs: "CrdDebouncerRunnable d v \<notin> fst ` set (main_runnables (Load id readme_env) w)" for d v
    by (simp add: main_runnables_def wrapWatcher_def wrapDebouncer_def wrapSender_def Let_def)
  have "case NewWatcher id None None (Load id readme_env) of Inl _ \<Rightarrow> False
      | Inr w \<Rightarrow> crdGVR \<in> set (discoverResources id (\<lambda>_. Some (''apiextensions.k8s.io'', ''v1'')) crd_discovery w)"
    by code_simp
  then have disc: "crdGVR \<in> set (discoverResources id (\<lambda>_. Some (''apiextensions.k8s.io'', ''v1'')) crd_discovery w)"
    using w by simp
  obtain w' where "run_callbacks (replicate 1000 (False, OnAdd (Unstructured test_crd))) w = Some w'"
    "\<not> ch_closed (stopCh w')" "\<not> ch_closed (CrdEvents w')" "ch_cap (CrdEvents w') = 1000" "length (ch_buf (CrdEvents w')) = 1000"
    using crd_adds_fill [of w 1000] f by auto
  moreover from this have "run_callback pick (OnDelete (Unstructured test_crd)) w' = None" for pick
    using IsCRD_test_crd by (simp add: DeleteFunc_def emitCrd_blocks_iff chan_room_def)
  ultimately show ?thesis using w runs disc by blast
qed

text \<open>A server that answers 503 once, and a context that is cancelled while the client waits to retry.\<close>

definition shutdown_world :: "send_context \<Rightarrow> nat \<Rightarrow> world" where
  "shutdown_world ctx i =
     \<lparr>newRequest = (\<lambda>_. None), answer = (\<lambda>a k. Inr (if i = 0 \<and> a = 0 then 503 else 200, NoLocation)),
      ctxDone = (\<lambda>a. if ctx = LiveContext then Some ''context canceled'' else None), randNum = (\<lambda>_. 0), outOfRange = 0\<rparr>"

lemma shutdown_world_sel [simp]:
  "newRequest (shutdown_world ctx i) a = None"
  "roundTrip (shutdown_world ctx i) a = Inr (if i = 0 \<and> a = 0 then 503 else 200)"
  "ctxDone (shutdown_world ctx i) a = (if ctx = LiveContext then Some ''context canceled'' else None)"
  by (rule roundTrip_answered | simp add: shutdown_world_def)+

text \<open>The drain at shutdown covers the payloads still in the channel, not the one being sent: when the context is
  cancelled while \<open>Send\<close> waits to retry a payload, that payload fails with the error of the context and is not sent again
  under the fresh context that the next payload gets, although the server is ready to accept it.\<close>

theorem in_flight_payload_not_drained:
  "map (\<lambda>(ctx, p, r). (ctx, Deletes p, map_option fst r))
     (snd (runSenderLoop
        (\<lambda>ctx i p. Send IsEmpty (\<lambda>p. Inr (json_SyncPayload p)) (New_client ''http://x'' []) (shutdown_world ctx i) (Payload_of p))
        (\<lambda>i. 0 < i) 0
        ((make_chan 100)\<lparr>ch_buf := [\<lparr>Upserts = [], Deletes = [''a'']\<rparr>, \<lparr>Upserts = [], Deletes = [''b'']\<rparr>], ch_closed := True\<rparr>) [])) =
   [(LiveContext, [''a''], Some (Some (ContextCancelled ''context canceled''))), (DrainContext, [''b''], Some None)]"
proof -
  let ?c = "New_client ''http://x'' []"
  have n: "attempts ?c = 4" using attempts_eq [of ?c] by (simp add: New_client_def)
  have a: "map_option fst (instance_send.deliver ?c (shutdown_world LiveContext 0) (Payload_of \<lparr>Upserts = [], Deletes = [''a'']\<rparr>)) =
      Some (Some (ContextCancelled ''context canceled''))"
    by (subst instance_send.deliver_result)
      (simp_all add: n send_result_def verdict_def trouble_def upt_rec)
  have b: "map_option fst (instance_send.deliver ?c (shutdown_world DrainContext 1) (Payload_of \<lparr>Upserts = [], Deletes = [''b'']\<rparr>)) =
      Some None"
    by (subst instance_send.deliver_result)
      (simp_all add: n send_result_def verdict_def trouble_def upt_rec)
  show ?thesis
    using a b by (simp add: runSenderLoop_result instance_send.deliver_def Let_def upt_rec)
qed

end
