(* ===== verification/Watcher_Invariant.thy ===== *)
theory Watcher_Invariant
  imports Watcher_Properties
begin

text \<open>
  The well-formed watchers: what \<open>NewWatcher\<close> establishes and every operation keeps, whoever else is running. A resync
  runs beside other goroutines, so its rule lets them do, before each event, whatever the watcher allows.
\<close>

section \<open>Well-formed watchers\<close>

definition watcher_ok :: "(string \<Rightarrow> string) \<Rightarrow> Config \<Rightarrow> Watcher \<Rightarrow> bool" where
  "watcher_ok u cfg w \<longleftrightarrow>
     w_filter w = New_filter u (WatchResourceTypes cfg) (ExcludeResourceTypes cfg) \<and>
     w_resyncInterval w = ResyncInterval cfg \<and> watchCRDs w = (CapabilitiesEndpoint cfg \<noteq> []) \<and>
     chan_ok (Events w) \<and> \<not> ch_closed (Events w) \<and> ch_cap (Events w) = 10000 \<and>
     chan_ok (CrdEvents w) \<and> \<not> ch_closed (CrdEvents w) \<and> ch_cap (CrdEvents w) = 1000 \<and>
     \<not> ch_panic (stopCh w) \<and> ch_sent (stopCh w) = [] \<and> ch_closed (stopCh w) = stopOnce w \<and>
     set (informers w) \<subseteq> set (watchedGVRs w)"

lemma NewWatcher_ok: "NewWatcher u d e cfg = Inr w \<Longrightarrow> watcher_ok u cfg w"
  by (auto simp: NewWatcher_def watcher_ok_def split: option.splits)

lemma Start_watcher_ok: "watcher_ok u cfg w \<Longrightarrow> watcher_ok u cfg (Start_watcher v parseGV resourceLists addErr w)"
  by (auto simp: watcher_ok_def Start_watcher_def Let_def)

lemma Stop_watcher_ok: "watcher_ok u cfg w \<Longrightarrow> watcher_ok u cfg (Stop_watcher w)"
  by (auto simp: watcher_ok_def Stop_watcher_def chan_close_def)

lemma receive_ok:
  "watcher_ok u cfg w \<Longrightarrow> chan_recv (Events w) = Received e c \<Longrightarrow> watcher_ok u cfg (w\<lparr>Events := c\<rparr>)"
  "watcher_ok u cfg w \<Longrightarrow> chan_recv (CrdEvents w) = Received f d \<Longrightarrow> watcher_ok u cfg (w\<lparr>CrdEvents := d\<rparr>)"
  by (auto simp: watcher_ok_def chan_recv_Received chan_ok_def suffix_def)

lemma emit_ok: "watcher_ok u cfg w \<Longrightarrow> watcher_ok u cfg (emit pick e w)"
  by (auto simp: watcher_ok_def emit_def chan_send_nb_ok)

lemma emitCrd_ok: "watcher_ok u cfg w \<Longrightarrow> emitCrd pick e w = Some w' \<Longrightarrow> watcher_ok u cfg w'"
  by (auto simp: watcher_ok_def emitCrd_def chan_send_nb_ok chan_send_def chan_push_ok split: if_splits)

lemma callback_ok: "watcher_ok u cfg w \<Longrightarrow> run_callback pick cb w = Some w' \<Longrightarrow> watcher_ok u cfg w'"
  by (auto simp: run_callback_requested emit_ok emitCrd_ok split: request.splits)

lemma resync_ok:
  assumes "\<And>n v. watcher_ok u cfg v \<Longrightarrow> watcher_ok u cfg (others n v)"
  shows "watcher_ok u cfg w \<Longrightarrow> resync_items others pick objs tot w = Some (n, w') \<Longrightarrow> watcher_ok u cfg w'"
proof (induction objs arbitrary: tot w)
  case (Cons obj objs)
  show ?case
  proof (cases "IsCRD obj")
    case True
    then obtain v where v: "emitCrd (pick tot) \<lparr>ce_Type = EventAdd, ce_CrdName = GetName obj\<rparr> (others tot w) = Some v"
      "resync_items others pick objs (Suc tot) v = Some (n, w')"
      using Cons.prems(2) by (auto split: option.splits)
    show ?thesis using Cons.IH [OF emitCrd_ok [OF assms [OF Cons.prems(1)] v(1)] v(2)] .
  next
    case False
    with Cons.prems(2) Cons.IH [OF emit_ok [OF assms [OF Cons.prems(1)]]] show ?thesis by simp
  qed
qed simp

lemma TriggerResync_ok:
  assumes "\<And>n v. watcher_ok u cfg v \<Longrightarrow> watcher_ok u cfg (others n v)" "watcher_ok u cfg w"
    and "TriggerResync lister others pick w = Some (r, w')"
  shows "watcher_ok u cfg w'"
proof -
  obtain n where "resync_items others pick (listed_objects lister (watchedGVRs w)) 0 w = Some (n, w')"
    using assms(3) by (auto simp: TriggerResync_def resync_gvrs_items split: option.splits)
  from resync_ok [OF _ assms(2) this] assms(1) show ?thesis by blast
qed

section \<open>The watchers the program can reach\<close>

text \<open>Start, stop, callbacks of the informers, receives of the two buffers, and resyncs, in any order; \<open>others\<close> are the
  moves of the other goroutines during a resync.\<close>

inductive watcher_run :: "Watcher \<Rightarrow> Watcher \<Rightarrow> bool" where
  wr_refl: "watcher_run w w"
| wr_start: "watcher_run w v \<Longrightarrow> watcher_run w (Start_watcher ulower parseGV resourceLists addErr v)"
| wr_stop: "watcher_run w v \<Longrightarrow> watcher_run w (Stop_watcher v)"
| wr_callback: "watcher_run w v \<Longrightarrow> run_callback pick cb v = Some v' \<Longrightarrow> watcher_run w v'"
| wr_receive: "watcher_run w v \<Longrightarrow> chan_recv (Events v) = Received e c \<Longrightarrow> watcher_run w (v\<lparr>Events := c\<rparr>)"
| wr_receive_crd: "watcher_run w v \<Longrightarrow> chan_recv (CrdEvents v) = Received f d \<Longrightarrow> watcher_run w (v\<lparr>CrdEvents := d\<rparr>)"
| wr_resync: "watcher_run w v \<Longrightarrow> (\<forall>n x. watcher_run x (others n x)) \<Longrightarrow>
    TriggerResync lister others pick v = Some (r, v') \<Longrightarrow> watcher_run w v'"

lemma run_ok: "watcher_run w v \<Longrightarrow> watcher_ok u cfg w \<Longrightarrow> watcher_ok u cfg v"
  by (induction rule: watcher_run.induct)
    (auto intro: Start_watcher_ok Stop_watcher_ok callback_ok receive_ok TriggerResync_ok)

text \<open>C18. A watcher stays well formed. Whatever the informers, the API server, the buffers and the shutdown do with a
  watcher that \<open>NewWatcher\<close> has built, in any order and with any interleaving into a resync: no send or close panics, the two event
  channels stay open, first in first out and within their capacities of 10000 and 1000, the stop channel is closed exactly if
  \<open>Stop\<close> has run and is closed only once, informers exist only for watched types, and the settings are those
  of the configuration.\<close>

theorem watcher_well_formed:
  assumes "NewWatcher u dynErr discoErr cfg = Inr w" "watcher_run w v"
  shows "watcher_ok u cfg v"
  using run_ok [OF assms(2) NewWatcher_ok [OF assms(1)]] .

text \<open>A watcher for definitions starts, and is stopped while a resync runs, whose event is still sent.\<close>

theorem watcher_well_formed_witness:
  "\<exists>w v. NewWatcher (\<lambda>s. s) None None (Load (\<lambda>s. s) (\<lambda>k. if k = ''CAPABILITIES_ENDPOINT'' then ''http://x'' else '''')) = Inr w \<and>
     watcher_run w v \<and> watchedGVRs v = [crdGVR] \<and> stopOnce v \<and> ch_closed (stopCh v) \<and> ch_cap (CrdEvents v) = 1000 \<and>
     ch_buf (CrdEvents v) = [\<lparr>ce_Type = EventAdd, ce_CrdName = ''issuers.cert-manager.io''\<rparr>]"
proof -
  let ?cfg = "Load (\<lambda>s. s) (\<lambda>k. if k = ''CAPABILITIES_ENDPOINT'' then ''http://x'' else '''')"
  obtain w where w: "NewWatcher (\<lambda>s. s) None None ?cfg = Inr w" by (simp add: NewWatcher_def)
  let ?s = "Start_watcher (\<lambda>s. s) (\<lambda>_. None) [] (\<lambda>_. False) w"
  let ?v = "(Stop_watcher ?s)\<lparr>CrdEvents := chan_push \<lparr>ce_Type = EventAdd, ce_CrdName = GetName test_crd\<rparr> (CrdEvents w)\<rparr>"
  have w_sel: "watchCRDs w" "CrdEvents w = make_chan 1000" "\<not> stopOnce w" "stopCh w = make_chan 0"
    using w by (auto simp: NewWatcher_def Load_def envOrDefault_def)
  have s: "watchedGVRs ?s = [crdGVR]" "CrdEvents ?s = CrdEvents w" "\<not> stopOnce ?s" "stopCh ?s = make_chan 0"
    using w_sel by (simp_all add: Start_watcher_def discoverResources_def Let_def)
  have "TriggerResync (\<lambda>_. Inr [test_crd]) (\<lambda>_. Stop_watcher) (\<lambda>_. False) ?s = Some ((1, None), ?v)"
    using IsCRD_test_crd s w_sel(2)
    by (simp add: TriggerResync_def emitCrd_def chan_room_def chan_send_nb_def Stop_watcher_def)
  moreover have "\<forall>n x. watcher_run x ((\<lambda>_. Stop_watcher) n x)" by (simp add: wr_refl wr_stop)
  ultimately have run: "watcher_run w ?v" by (rule wr_resync [OF wr_start [OF wr_refl], rotated])
  have "watchedGVRs ?v = [crdGVR]" "stopOnce ?v"
    "ch_buf (CrdEvents ?v) = [\<lparr>ce_Type = EventAdd, ce_CrdName = ''issuers.cert-manager.io''\<rparr>]"
    using s w_sel(2) by (simp_all add: Stop_watcher_def test_crd_def)
  then show ?thesis
    using watcher_well_formed [OF w run] w run by (intro exI [of _ w] exI [of _ ?v]) (simp add: watcher_ok_def)
qed

end
