(* ===== verification/At_Least_Once.thy ===== *)
theory At_Least_Once
  imports Pipeline Crd_Replica
begin

text \<open>
  What the server behind an endpoint makes of the requests of a sender. A payload may be posted several times, and a request that
  the client counts as failed may still have been handled, so the server handles each payload any number of
  times up to the number of requests, and at least once if \<open>Send\<close> returned without an error. Retries do no harm, and a payload
  that is given up concerns only the keys it is about, until the next payload about them.
\<close>

section \<open>Deliveries\<close>

text \<open>A payload the sender loop has handed to \<open>Send\<close>, with the context it chose and the result.\<close>

type_synonym 'p delivery = "send_context \<times> 'p \<times> (send_error option \<times> json action list) option"

text \<open>The last request of a \<open>Send\<close> was a POST of its own, not one that follows a redirect.\<close>

definition direct :: "'b action list \<Rightarrow> bool" where
  "direct acts \<longleftrightarrow> acts \<noteq> [] \<and> (case last acts of Posted ep b \<Rightarrow> True | _ \<Rightarrow> False)"

text \<open>A payload is delivered if \<open>Send\<close> returned without an error, and that was the answer of the endpoint itself.\<close>

fun delivered :: "'p delivery \<Rightarrow> bool" where
  "delivered (ctx, p, r) = (case r of Some (None, acts) \<Rightarrow> acts = [] \<or> direct acts | _ \<Rightarrow> False)"

text \<open>The last payload about a key, if there is one, was delivered.\<close>

definition last_delivered :: "('p \<Rightarrow> string set) \<Rightarrow> 'p delivery list \<Rightarrow> string \<Rightarrow> bool" where
  "last_delivered about js i =
     (case find (\<lambda>(ctx, p, r). i \<in> about p) (rev js) of None \<Rightarrow> True | Some d \<Rightarrow> delivered d)"

lemma last_delivered_snoc:
  "last_delivered about (js @ [(ctx, p, r)]) i =
     (if i \<in> about p then delivered (ctx, p, r) else last_delivered about js i)"
  by (simp add: last_delivered_def)

lemma all_delivered: "list_all delivered js \<Longrightarrow> last_delivered about js i"
proof (induction js rule: rev_induct)
  case (snoc d js)
  then show ?case by (cases d) (simp add: last_delivered_snoc)
qed (simp add: last_delivered_def)

text \<open>The bodies the server at the address has handled, in order: each request it got any number of times, and at least one of
  a \<open>Send\<close> it has answered without an error.\<close>

inductive served :: "string \<Rightarrow> 'p delivery list \<Rightarrow> json list \<Rightarrow> bool" for ep where
  served_nothing: "served ep [] []"
| served_next: "served ep js bodies \<Longrightarrow>
    \<forall>b \<in> set got. Posted ep b \<in> set acts \<or> Followed ep (Some b) \<in> set acts \<Longrightarrow>
    err = None \<and> direct acts \<longrightarrow> got \<noteq> [] \<Longrightarrow>
    served ep (js @ [(ctx, p, Some (err, acts))]) (bodies @ got)"

section \<open>Requests\<close>

lemma Do_posts: "posts (snd (Do w a url body)) \<noteq> 0"
  by (auto simp: Do_def do_requests.simps [of w a] case_prod_beta split: sum.splits option.splits location.splits nat.splits)

lemma send_loop_posts:
  "fst (send_loop c w body n a lastErr acts) = None \<Longrightarrow> posts (snd (send_loop c w body n a lastErr acts)) \<noteq> 0"
proof (induction n arbitrary: a lastErr acts)
  case (Suc n)
  obtain err ps where d: "doPost c w a body = (err, ps)" by (cases "doPost c w a body")
  have ps: "err = None \<longrightarrow> posts ps \<noteq> 0" using d Do_posts by (auto simp: doPost_eq split: option.splits)
  show ?case
  proof (cases "err = None \<or> 0 < a \<and> ctxDone w a \<noteq> None")
    case True
    then show ?thesis using Suc.prems ps d by (auto simp: Let_def)
  next
    case False
    then show ?thesis using Suc.prems Suc.IH d by (auto simp: Let_def split: if_splits)
  qed
qed simp

lemma posts_posted: "posts acts \<noteq> 0 \<Longrightarrow> \<exists>ep b. Posted ep b \<in> set acts"
proof (induction acts)
  case (Cons a acts)
  then show ?case by (cases a) auto
qed simp

section \<open>Applying a payload again\<close>

text \<open>The keys a payload is about, and their values after it, which do not depend on the state before.\<close>

definition touched :: "('v \<Rightarrow> string) \<Rightarrow> 'v list \<times> string list \<Rightarrow> string set" where
  "touched key p = key ` set (fst p) \<union> set (snd p)"

lemma apply_changes_find:
  fixes m :: "string \<rightharpoonup> 'v"
  shows "apply_changes key ups dels m i =
    (if i \<in> set dels then None
     else case find (\<lambda>v. key v = i) (rev ups) of Some v \<Rightarrow> Some v | None \<Rightarrow> m i)"
proof -
  have dels: "fold (\<lambda>k m. m(k := None)) dels m i = (if i \<in> set dels then None else m i)" for m :: "string \<rightharpoonup> 'v"
    by (induction dels arbitrary: m) auto
  have ups: "fold (\<lambda>v m. m(key v \<mapsto> v)) ups m i =
      (case find (\<lambda>v. key v = i) (rev ups) of Some v \<Rightarrow> Some v | None \<Rightarrow> m i)"
    by (induction ups rule: rev_induct) auto
  show ?thesis unfolding apply_changes_def dels ups ..
qed

lemma apply_changes_at:
  "apply_changes key ups dels m i =
     (if i \<in> touched key (ups, dels) then apply_changes key ups dels Map.empty i else m i)"
proof -
  have "find (\<lambda>v. key v = i) (rev ups) = None \<longleftrightarrow> i \<notin> key ` set ups" by (auto simp: find_None_iff)
  then show ?thesis by (auto simp: apply_changes_find touched_def split: option.splits)
qed

lemma received_state_append:
  "received_state key (ps @ [p]) i =
     (if i \<in> touched key p then received_state key [p] i else received_state key ps i)"
proof -
  obtain ups dels where p: "p = (ups, dels)" by (cases p)
  show ?thesis
    using apply_changes_at [of key ups dels "received_state key ps" i] received_state_snoc [of key ps ups dels]
      received_state_snoc [of key "[]" ups dels]
    by (simp add: p received_state_def)
qed

lemma received_state_repeat:
  "received_state key (ps @ replicate n p) i =
     (if n \<noteq> 0 \<and> i \<in> touched key p then received_state key [p] i else received_state key ps i)"
proof (induction n)
  case (Suc n)
  have "ps @ replicate (Suc n) p = (ps @ replicate n p) @ [p]" by (simp add: replicate_append_same)
  then show ?case using Suc received_state_append [of key "ps @ replicate n p" p i] by (simp del: replicate_Suc)
qed simp

lemma received_state_canon:
  fixes i :: string
  assumes "\<And>v. key (canon v) = key v"
  shows "received_state key [(map canon ups, dels)] i = map_option canon (received_state key [(ups, dels)] i)"
proof -
  have "find (\<lambda>v. key v = i) (map canon xs) = map_option canon (find (\<lambda>v. key v = i) xs)" for xs
    by (induction xs) (simp_all add: assms)
  then show ?thesis by (simp add: received_state_def apply_changes_find rev_map split: option.splits)
qed

section \<open>The wire format of a payload\<close>

text \<open>What the sender and the server share: the body of a payload reads back as the payload, up to the form of its values.\<close>

locale wire_format = sendable isEmpty encode changes
  for isEmpty :: "'p \<Rightarrow> bool" and encode :: "'p \<Rightarrow> json" and changes :: "'p \<Rightarrow> nat" +
  fixes read :: "json \<Rightarrow> 'p option"
    and view :: "'p \<Rightarrow> 'v list \<times> string list"
    and key :: "'v \<Rightarrow> string"
    and canon :: "'v \<Rightarrow> 'v"
  assumes read_encode: "map_option view (read (encode p)) = Some (map canon (fst (view p)), snd (view p))"
    and key_canon: "key (canon v) = key v"
    and no_changes: "changes p = 0 \<Longrightarrow> view p = ([], [])"
begin

definition about :: "'p \<Rightarrow> string set" where
  "about p = touched key (view p)"

definition sent_with :: "RESTClient \<Rightarrow> 'p delivery list \<Rightarrow> bool" where
  "sent_with c js \<longleftrightarrow> (\<forall>(ctx, p, r) \<in> set js. \<exists>w. r = deliver c w (Payload_of p))"

lemma sent_with_snoc [simp]:
  "sent_with c (js @ [(ctx, p, r)]) \<longleftrightarrow> sent_with c js \<and> (\<exists>w. r = deliver c w (Payload_of p))"
  by (auto simp: sent_with_def)

lemma requests:
  assumes "deliver c w (Payload_of p) = Some (err, acts)"
  shows "Posted ep b \<in> set acts \<Longrightarrow> ep = endpoint c \<and> b = encode p"
    and "Followed ep (Some b) \<in> set acts \<Longrightarrow> b = encode p"
    and "err = None \<Longrightarrow> about p \<noteq> {} \<Longrightarrow> acts \<noteq> []"
proof -
  consider "changes p = 0" "acts = []" | "changes p \<noteq> 0" "(err, acts) = send_loop c w (encode p) (attempts c) 0 None []"
    using assms deliver_nothing [of "Payload_of p" c w] deliver_changes [of p c w] by (cases "changes p = 0") auto
  note cases = this
  have ok: "list_all (action_ok c w (encode p)) acts"
    using cases
  proof cases
    case 2
    then show ?thesis using send_loop_actions [of c w "encode p" "[]" "attempts c" 0 None] by (metis list.pred_inject(1) posts_simps(1) redirects_simps(1) snd_conv le0)
  qed simp
  from ok show "Posted ep b \<in> set acts \<Longrightarrow> ep = endpoint c \<and> b = encode p" "Followed ep (Some b) \<in> set acts \<Longrightarrow> b = encode p"
    by (auto simp: list_all_iff action_ok_def)
  show "acts \<noteq> []" if "err = None" "about p \<noteq> {}"
    using cases
  proof cases
    case 1
    then show ?thesis using that no_changes [of p] by (simp add: about_def touched_def)
  next
    case 2
    then show ?thesis using that(1) send_loop_posts by (metis fst_conv snd_conv posts_simps(1))
  qed
qed

text \<open>The server may handle every request once.\<close>

lemma served_exists:
  assumes "sent_with c js"
  shows "\<exists>bodies. served (endpoint c) js bodies"
  using assms
proof (induction js rule: rev_induct)
  case Nil
  show ?case using served_nothing by blast
next
  case (snoc d js)
  obtain ctx p r where d: "d = (ctx, p, r)" by (cases d)
  with snoc.prems obtain w where w: "r = deliver c w (Payload_of p)" by auto
  then obtain err acts where r: "r = Some (err, acts)" using deliver_total [of c w "Payload_of p"] by auto
  obtain bodies where b: "served (endpoint c) js bodies" using snoc d by auto
  let ?got = "replicate (posts acts) (encode p)"
  have "Posted (endpoint c) (encode p) \<in> set acts" if sent: "posts acts \<noteq> 0"
  proof -
    obtain ep b where "Posted ep b \<in> set acts" using posts_posted [OF sent] by blast
    then show ?thesis using requests(1) [of c w p err acts] w r by metis
  qed
  then have "\<forall>b \<in> set ?got. Posted (endpoint c) b \<in> set acts \<or> Followed (endpoint c) (Some b) \<in> set acts" by simp
  moreover have "direct acts \<longrightarrow> posts acts \<noteq> 0"
    by (cases acts rule: rev_cases) (auto simp: direct_def split: action.splits)
  ultimately show ?case using served_next [OF b, of ?got acts err ctx p] unfolding d r by auto
qed

text \<open>The state of the server at a key.\<close>

lemma served_state:
  assumes "served ep js bodies" "sent_with c js" "last_delivered about js i"
  shows "received_state key (map view (List.map_filter read bodies)) i =
    map_option canon (received_state key (map (\<lambda>(ctx, p, r). view p) js) i)"
  using assms
proof (induction rule: served.induct)
  case served_nothing
  then show ?case by (simp add: received_state_def)
next
  case (served_next js bodies got acts err ctx p)
  obtain w where w: "deliver c w (Payload_of p) = Some (err, acts)" using served_next.prems(1) by auto
  obtain q where q: "read (encode p) = Some q" "view q = (map canon (fst (view p)), snd (view p))"
    using read_encode [of p] by auto
  have "\<forall>b \<in> set got. b = encode p" using served_next.hyps(2) requests(1,2) [OF w] by metis
  then have "got = replicate (length got) (encode p)" by (simp add: replicate_length_same)
  then obtain n where n: "got = replicate n (encode p)" by blast
  then have bodies: "map view (List.map_filter read (bodies @ got)) =
      map view (List.map_filter read bodies) @ replicate n (view q)"
    by (simp add: map_filter_def q(1))
  have t: "about q = about p"
    by (simp add: about_def touched_def q(2) image_image key_canon)
  have js: "map (\<lambda>(ctx, p, r). view p) (js @ [(ctx, p, Some (err, acts))]) = map (\<lambda>(ctx, p, r). view p) js @ [view p]"
    by simp
  show ?case
  proof (cases "i \<in> about p")
    case True
    then have "err = None" "acts = [] \<or> direct acts"
      using served_next.prems(2) by (auto simp: last_delivered_snoc split: option.splits)
    moreover have "acts \<noteq> []" using requests(3) [OF w \<open>err = None\<close>] True by blast
    ultimately have "n \<noteq> 0" using served_next.hyps(3) n by auto
    then show ?thesis
      unfolding bodies js received_state_repeat received_state_append about_def [symmetric] t
      using True received_state_canon [of key canon "fst (view p)" "snd (view p)" i, OF key_canon] q(2) by simp
  next
    case False
    then have "last_delivered about js i" using served_next.prems(2) by (simp add: last_delivered_snoc)
    then show ?thesis
      unfolding bodies js received_state_repeat received_state_append about_def [symmetric] t
      using False served_next.IH served_next.prems(1) by simp
  qed
qed

end

section \<open>Both payloads\<close>

text \<open>Instances keep their ID when the keys of their maps are put in order.\<close>

interpretation instance_wire: wire_format IsEmpty json_SyncPayload "\<lambda>p. length (Upserts p) + length (Deletes p)"
  read_SyncPayload payload_view ri_ID canonical
proof unfold_locales
  show "map_option payload_view (read_SyncPayload (json_SyncPayload p)) =
      Some (map canonical (fst (payload_view p)), snd (payload_view p))" for p
    by (simp add: read_json_SyncPayload payload_view_def)
qed (simp_all add: canonical_def payload_view_def)

interpretation crd_wire: wire_format IsEmpty_crd json_CrdSyncPayload
  "\<lambda>p. length (crd_Upserts p) + length (crd_Deletes p)" read_CrdSyncPayload payload_view_crd "\<lambda>n. n" "\<lambda>n. n"
proof unfold_locales
  show "map_option payload_view_crd (read_CrdSyncPayload (json_CrdSyncPayload p)) =
      Some (map (\<lambda>n. n) (fst (payload_view_crd p)), snd (payload_view_crd p))" for p
    by (simp add: read_json_CrdSyncPayload payload_view_crd_def)
qed (simp_all add: payload_view_crd_def)

end
