(* ===== verification/Composition.thy ===== *)
theory Composition
  imports Watcher_Properties Debounce_Properties Crd_Properties
begin

text \<open>
  Watcher and buffers together, as \<open>main\<close> connects them: the informers call the callbacks of the watcher, the
  callbacks send to the channels \<open>Events\<close> and \<open>CrdEvents\<close>, and the \<open>Run\<close> methods of the two buffers receive from them. The
  composed system interleaves callbacks, the objects of ad-hoc resyncs, which the API server runs on the same watcher, the stop of
  the watcher, receives of both \<open>Run\<close> methods and every other step of the two buffers.
\<close>

section \<open>The composed system\<close>

text \<open>The history \<open>ps_callbacks\<close> lists the callbacks so far, and an object that a resync emits as the callback of its add; no
  step reads it.\<close>

record psys =
  ps_watcher :: Watcher
  ps_buffer :: dsys
  ps_crds :: csys
  ps_callbacks :: "callback list"

datatype plabel =
    PCallback bool callback
  | PResync bool unstructured
  | PStop
  | PReceive
  | PBuffer dlabel
  | PCrdReceive
  | PCrdBuffer clabel

definition psys_init :: "Watcher \<Rightarrow> Config \<Rightarrow> psys" where
  "psys_init w cfg =
     \<lparr>ps_watcher = w, ps_buffer = dsys_init (NewDebounceBuffer cfg),
      ps_crds = csys_init (NewCrdDebounceBuffer cfg), ps_callbacks = []\<rparr>"

text \<open>The \<open>Start\<close> methods of the two debouncer runnables call \<open>Run\<close> with an event channel of the watcher: what \<open>Run\<close> receives,
  it receives from there.\<close>

definition debouncer_receive :: "(dlabel \<Rightarrow> dsys \<Rightarrow> dsys option) \<Rightarrow> psys \<Rightarrow> psys option" where
  [simp]: "debouncer_receive bstep p =
     (case chan_recv (Events (ps_watcher p)) of
        Received e c \<Rightarrow>
          (case bstep (LEvent e) (ps_buffer p) of
             None \<Rightarrow> None
           | Some s \<Rightarrow> Some (p\<lparr>ps_watcher := (ps_watcher p)\<lparr>Events := c\<rparr>, ps_buffer := s\<rparr>))
      | _ \<Rightarrow> None)"

definition crdDebouncer_receive :: "(clabel \<Rightarrow> csys \<Rightarrow> csys option) \<Rightarrow> psys \<Rightarrow> psys option" where
  [simp]: "crdDebouncer_receive kstep p =
     (case chan_recv (CrdEvents (ps_watcher p)) of
        Received e c \<Rightarrow>
          (case kstep (CLEvent e) (ps_crds p) of
             None \<Rightarrow> None
           | Some s \<Rightarrow> Some (p\<lparr>ps_watcher := (ps_watcher p)\<lparr>CrdEvents := c\<rparr>, ps_crds := s\<rparr>))
      | _ \<Rightarrow> None)"

text \<open>\<open>PResync\<close> is one round of the loop of \<open>TriggerResync\<close>: rounds of any number of running resyncs interleave with everything
  else. \<open>bstep\<close> and \<open>kstep\<close> are the step functions of the buffers, all steps or only the calm ones. \<open>main\<close> runs the CRD
  buffer only with a capabilities endpoint, the condition under which \<open>NewWatcher\<close> sets \<open>watchCRDs\<close>.\<close>

fun pstep ::
    "(dlabel \<Rightarrow> dsys \<Rightarrow> dsys option) \<Rightarrow> (clabel \<Rightarrow> csys \<Rightarrow> csys option) \<Rightarrow> plabel \<Rightarrow> psys \<Rightarrow> psys option" where
  "pstep bstep kstep (PCallback pick cb) p =
     (case run_callback pick cb (ps_watcher p) of
        None \<Rightarrow> None
      | Some w \<Rightarrow> Some (p\<lparr>ps_watcher := w, ps_callbacks := ps_callbacks p @ [cb]\<rparr>))"
| "pstep bstep kstep (PResync pick obj) p =
     (case resync_items (\<lambda>_ w. w) (\<lambda>_. pick) [obj] 0 (ps_watcher p) of
        None \<Rightarrow> None
      | Some (_, w) \<Rightarrow> Some (p\<lparr>ps_watcher := w, ps_callbacks := ps_callbacks p @ [OnAdd (Unstructured obj)]\<rparr>))"
| "pstep bstep kstep PStop p = Some (p\<lparr>ps_watcher := Stop_watcher (ps_watcher p)\<rparr>)"
| "pstep bstep kstep PReceive p = debouncer_receive bstep p"
| "pstep bstep kstep (PBuffer l) p =
     (case l of
        LEvent e \<Rightarrow> None
      | _ \<Rightarrow> (case bstep l (ps_buffer p) of None \<Rightarrow> None | Some s \<Rightarrow> Some (p\<lparr>ps_buffer := s\<rparr>)))"
| "pstep bstep kstep PCrdReceive p = (if watchCRDs (ps_watcher p) then crdDebouncer_receive kstep p else None)"
| "pstep bstep kstep (PCrdBuffer l) p =
     (if watchCRDs (ps_watcher p)
      then (case l of
              CLEvent e \<Rightarrow> None
            | _ \<Rightarrow> (case kstep l (ps_crds p) of None \<Rightarrow> None | Some s \<Rightarrow> Some (p\<lparr>ps_crds := s\<rparr>)))
      else None)"

text \<open>A round of a resync sends what the callback of an add would send.\<close>

lemma pstep_resync: "pstep bstep kstep (PResync pick obj) p = pstep bstep kstep (PCallback pick (OnAdd (Unstructured obj))) p"
  by (simp add: resync_items_AddFunc del: resync_items.simps(2) split: option.splits bind_split)

text \<open>The events the callbacks ask for, in order, for the two channels.\<close>

definition instance_requests :: "callback list \<Rightarrow> ResourceEvent list" where
  "instance_requests cbs =
     concat (map (\<lambda>cb. case requested cb of EmitInstance e \<Rightarrow> [e] | _ \<Rightarrow> []) cbs)"

definition crd_requests :: "callback list \<Rightarrow> CrdEvent list" where
  "crd_requests cbs = concat (map (\<lambda>cb. case requested cb of EmitCrd e \<Rightarrow> [e] | _ \<Rightarrow> []) cbs)"

lemma requests_snoc [simp]:
  "instance_requests (cbs @ [cb]) =
     instance_requests cbs @ (case requested cb of EmitInstance e \<Rightarrow> [e] | _ \<Rightarrow> [])"
  "crd_requests (cbs @ [cb]) = crd_requests cbs @ (case requested cb of EmitCrd e \<Rightarrow> [e] | _ \<Rightarrow> [])"
  by (simp_all add: instance_requests_def crd_requests_def)

section \<open>A channel between a producer and a consumer\<close>

text \<open>The consumer has received what was sent, in order, up to what is still in the buffer; and while the producer
  runs and has dropped nothing, what was sent is what it was asked to send.\<close>

definition fifo_inv :: "'e chan \<Rightarrow> 'e list \<Rightarrow> bool \<Rightarrow> 'e list \<Rightarrow> bool" where
  "fifo_inv c got stopped asked \<longleftrightarrow>
     \<not> ch_closed c \<and> ch_sent c = got @ ch_buf c \<and>
     (\<not> stopped \<and> ch_dropped c = [] \<longrightarrow> ch_sent c = asked)"

lemma fifo_send_nb: "fifo_inv c got st asked \<Longrightarrow> fifo_inv (chan_send_nb e c) got st (asked @ [e])"
  by (auto simp: fifo_inv_def chan_defs)

lemma fifo_send: "fifo_inv c got st asked \<Longrightarrow> chan_send e c = Some c' \<Longrightarrow> fifo_inv c' got st (asked @ [e])"
  by (auto simp: fifo_inv_def chan_defs split: if_splits)

lemma fifo_stopped: "fifo_inv c got st asked \<Longrightarrow> fifo_inv c got True asked'"
  by (auto simp: fifo_inv_def)

lemma fifo_recv:
  "fifo_inv c got st asked \<Longrightarrow> chan_recv c = Received e c' \<Longrightarrow> fifo_inv c' (got @ [e]) st asked"
  by (auto simp: fifo_inv_def chan_recv_Received)

lemma fifo_drained:
  "fifo_inv c got False asked \<Longrightarrow> ch_buf c = [] \<Longrightarrow> ch_dropped c = [] \<Longrightarrow> got = asked"
  by (auto simp: fifo_inv_def)

text \<open>What the composition needs of a consumer: a label that receives an event, and a history that this label alone
  extends.\<close>

locale consumer = invariant_system step Inv
  for step :: "'l \<Rightarrow> 's \<Rightarrow> 's option" and Inv :: "'s \<Rightarrow> bool" +
  fixes receive :: "'e \<Rightarrow> 'l" and got :: "'s \<Rightarrow> 'e list"
  assumes receive_got: "step (receive e) s = Some s' \<Longrightarrow> got s' = got s @ [e]"
    and other_got: "step l s = Some s' \<Longrightarrow> \<forall>e. l \<noteq> receive e \<Longrightarrow> got s' = got s"
begin

definition fed :: "'e chan \<Rightarrow> 's \<Rightarrow> bool \<Rightarrow> 'e list \<Rightarrow> bool" where
  "fed c s st asked \<longleftrightarrow> Inv s \<and> fifo_inv c (got s) st asked"

lemma receive_keeps_fed:
  "fed c s st asked \<Longrightarrow> chan_recv c = Received e c' \<Longrightarrow> step (receive e) s = Some s' \<Longrightarrow> fed c' s' st asked"
  by (auto simp: fed_def receive_got intro: step_keeps fifo_recv)

lemma other_keeps_fed:
  "fed c s st asked \<Longrightarrow> step l s = Some s' \<Longrightarrow> \<forall>e. l \<noteq> receive e \<Longrightarrow> fed c s' st asked"
  by (auto simp: fed_def other_got intro: step_keeps)

end

lemma calm_step_dstep: "calm_step l s = Some s' \<Longrightarrow> dstep l s = Some s'"
  by (simp add: calm_step_def calmly_Some)

lemma crd_calm_step_cstep: "crd_calm_step l s = Some s' \<Longrightarrow> cstep l s = Some s'"
  by (simp add: crd_calm_step_def calmly_Some)

interpretation instances: consumer calm_step dconverge.converges LEvent "\<lambda>s. map snd (ds_events s)"
proof unfold_locales
  show "dconverge.converges s'" if "dconverge.converges s" "calm_step l s = Some s'" for s l s'
    using dconverge.calm_step_converges [OF that [unfolded calm_step_def]] .
qed (auto dest!: calm_step_dstep simp: Let_def buffer_events split: if_splits)

interpretation crds: consumer crd_calm_step cflow.converges CLEvent "\<lambda>s. map snd (cs_events s)"
proof unfold_locales
  show "cflow.converges s'" if "cflow.converges s" "crd_calm_step l s = Some s'" for s l s'
    using cflow.calm_step_converges [OF that [unfolded crd_calm_step_def]] .
qed (auto dest!: crd_calm_step_cstep simp: Let_def crd_buffer_events split: if_splits)

section \<open>The invariant\<close>

definition compose_inv :: "psys \<Rightarrow> bool" where
  "compose_inv p \<longleftrightarrow>
     instances.fed (Events (ps_watcher p)) (ps_buffer p) (ch_closed (stopCh (ps_watcher p)))
       (instance_requests (ps_callbacks p)) \<and>
     crds.fed (CrdEvents (ps_watcher p)) (ps_crds p) (ch_closed (stopCh (ps_watcher p)))
       (crd_requests (ps_callbacks p))"

lemma emit_fifo:
  assumes "fifo_inv (Events w) got (ch_closed (stopCh w)) asked"
  shows "fifo_inv (Events (emit pick e w)) got (ch_closed (stopCh w)) (asked @ [e])"
  using fifo_send_nb [OF assms, of e] fifo_stopped [OF assms, of "asked @ [e]"] by (simp add: emit_def)

lemma emitCrd_fifo:
  assumes "fifo_inv (CrdEvents w) got (ch_closed (stopCh w)) asked" "emitCrd pick e w = Some w'"
  shows "fifo_inv (CrdEvents w') got (ch_closed (stopCh w')) (asked @ [e])"
proof (cases "ch_closed (stopCh w) \<and> (pick \<or> \<not> chan_room (CrdEvents w))")
  case True
  with assms(2) have "w' = w" by (auto simp: emitCrd_def split: if_splits)
  with True fifo_stopped [OF assms(1), of "asked @ [e]"] show ?thesis by simp
next
  case False
  have "stopCh w' = stopCh w" using emitCrd_other [OF assms(2)] by simp
  with False assms fifo_send_nb [OF assms(1), of e] fifo_send [OF assms(1), of e] show ?thesis
    by (auto simp: emitCrd_def split: if_splits)
qed

lemma callback_keeps:
  assumes "compose_inv p" "run_callback pick cb (ps_watcher p) = Some w"
  shows "compose_inv (p\<lparr>ps_watcher := w, ps_callbacks := ps_callbacks p @ [cb]\<rparr>)"
proof (cases "requested cb")
  case NoEvent
  then have "w = ps_watcher p" using assms(2) by (simp add: run_callback_requested)
  with NoEvent assms(1) show ?thesis by (simp add: compose_inv_def)
next
  case (EmitCrd e)
  then have w: "emitCrd pick e (ps_watcher p) = Some w" using assms(2) by (simp add: run_callback_requested)
  then have "Events w = Events (ps_watcher p)" "stopCh w = stopCh (ps_watcher p)" using emitCrd_other by blast+
  with EmitCrd assms(1) emitCrd_fifo [OF _ w] show ?thesis
    by (auto simp: compose_inv_def instances.fed_def crds.fed_def)
next
  case (EmitInstance e)
  then have "w = emit pick e (ps_watcher p)" using assms(2) by (simp add: run_callback_requested)
  with EmitInstance assms(1) show ?thesis
    by (auto simp: compose_inv_def instances.fed_def crds.fed_def intro: emit_fifo)
qed

lemma fed_stopped:
  "instances.fed c s st asked \<Longrightarrow> instances.fed c s True asked"
  "crds.fed c' s' st asked' \<Longrightarrow> crds.fed c' s' True asked'"
  by (auto simp: instances.fed_def crds.fed_def intro: fifo_stopped)

lemma Stop_watcher_other [simp]:
  "Events (Stop_watcher w) = Events w" "CrdEvents (Stop_watcher w) = CrdEvents w"
  by (simp_all add: Stop_watcher_def)

lemma stop_keeps:
  assumes "compose_inv p"
  shows "compose_inv (p\<lparr>ps_watcher := Stop_watcher (ps_watcher p)\<rparr>)"
proof (cases "ch_closed (stopCh (Stop_watcher (ps_watcher p)))")
  case True
  with assms show ?thesis by (auto simp: compose_inv_def intro: fed_stopped)
next
  case False
  then have "Stop_watcher (ps_watcher p) = ps_watcher p"
    by (auto simp: Stop_watcher_def chan_defs split: if_splits)
  with assms show ?thesis by simp
qed

lemma compose_inv_step:
  assumes "compose_inv p" "pstep calm_step crd_calm_step l p = Some p'"
  shows "compose_inv p'"
proof (cases l)
  case (PCallback pick cb)
  with assms show ?thesis by (auto simp: callback_keeps split: option.splits)
next
  case (PResync pick obj)
  with assms(2) have "pstep calm_step crd_calm_step (PCallback pick (OnAdd (Unstructured obj))) p = Some p'"
    by (simp only: pstep_resync)
  with assms(1) show ?thesis by (auto simp: callback_keeps simp del: run_callback.simps split: option.splits)
next
  case PStop
  with assms stop_keeps show ?thesis by auto
next
  case PReceive
  with assms show ?thesis
    by (auto simp: compose_inv_def split: recv.splits option.splits intro: instances.receive_keeps_fed)
next
  case (PBuffer b)
  with assms show ?thesis
    by (auto simp: compose_inv_def split: dlabel.splits option.splits intro: instances.other_keeps_fed)
next
  case PCrdReceive
  with assms show ?thesis
    by (auto simp: compose_inv_def split: if_splits recv.splits option.splits intro: crds.receive_keeps_fed)
next
  case (PCrdBuffer b)
  with assms show ?thesis
    by (auto simp: compose_inv_def split: if_splits clabel.splits option.splits intro: crds.other_keeps_fed)
qed

interpretation composed: invariant_system "pstep calm_step crd_calm_step" compose_inv
  by unfold_locales (rule compose_inv_step)

lemma psys_init_inv:
  assumes "NewWatcher u None None cfg = Inr w"
  shows "compose_inv (psys_init w cfg)"
proof -
  have "Events w = make_chan 10000" "CrdEvents w = make_chan 1000" using assms by (auto simp: NewWatcher_def)
  then show ?thesis
    by (simp add: compose_inv_def instances.fed_def crds.fed_def psys_init_def dconverge.init_converges
        cflow.init_converges fresh_buffer fresh_crd_buffer fifo_inv_def make_chan_def instance_requests_def crd_requests_def)
      (simp add: dsys_init_def csys_init_def)
qed

section \<open>From the informers to the receivers\<close>

text \<open>Nothing is on its way: no event in the channel, no pending entry, \<open>Run\<close> in its select, and no timer goroutine
  between collect and emit.\<close>

definition settled :: "psys \<Rightarrow> bool" where
  "settled p \<longleftrightarrow>
     ch_buf (Events (ps_watcher p)) = [] \<and> pending (ds_buf (ps_buffer p)) = [] \<and>
     ds_run (ps_buffer p) = RSelect \<and> held_batches (ps_buffer p) = []"

definition settled_crds :: "psys \<Rightarrow> bool" where
  "settled_crds p \<longleftrightarrow>
     ch_buf (CrdEvents (ps_watcher p)) = [] \<and> pending_crd (cs_buf (ps_crds p)) = [] \<and>
     cs_run (ps_crds p) = CRSelect \<and> ctimer_held (ps_crds p) = {}"

lemma settled_replica:
  assumes "compose_inv p" "settled p" "\<not> ch_closed (stopCh (ps_watcher p))" "ch_dropped (Events (ps_watcher p)) = []"
  shows "replica (ch_sent (Payloads (ds_buf (ps_buffer p)))) = cluster_state (instance_requests (ps_callbacks p))"
proof -
  have inv: "dconverge.converges (ps_buffer p)"
    and q: "fifo_inv (Events (ps_watcher p)) (map snd (ds_events (ps_buffer p))) False (instance_requests (ps_callbacks p))"
    using assms(1,3) by (auto simp: compose_inv_def instances.fed_def)
  have "replica (ch_sent (Payloads (ds_buf (ps_buffer p)))) = cluster_state (map snd (ds_events (ps_buffer p)))"
    using inv assms(2) by (intro idle_replica) (auto simp: settled_def)
  then show ?thesis using fifo_drained [OF q] assms(2,4) by (simp add: settled_def)
qed

lemma settled_crd_replica:
  assumes "compose_inv p" "settled_crds p" "\<not> ch_closed (stopCh (ps_watcher p))"
    and "ch_dropped (CrdEvents (ps_watcher p)) = []"
  shows "crd_replica (ch_sent (crd_Payloads (cs_buf (ps_crds p)))) = crd_state (crd_requests (ps_callbacks p))"
proof -
  have inv: "cflow.converges (ps_crds p)"
    and q: "fifo_inv (CrdEvents (ps_watcher p)) (map snd (cs_events (ps_crds p))) False (crd_requests (ps_callbacks p))"
    using assms(1,3) by (auto simp: compose_inv_def crds.fed_def)
  have "crd_replica (ch_sent (crd_Payloads (cs_buf (ps_crds p)))) = crd_state (map snd (cs_events (ps_crds p)))"
    using inv assms(2) by (intro crd_idle_replica) (auto simp: settled_crds_def)
  then show ?thesis using fifo_drained [OF q] assms(2,4) by (simp add: settled_crds_def)
qed

lemmas reach_compose_inv = composed.reach_keeps [OF _ psys_init_inv]

text \<open>Watcher and buffer together keep the receiver up to date while they run. On every calm schedule of callbacks,
  ad-hoc resyncs, receives and buffer steps of the system \<open>main\<close> builds, as long as the watcher is not stopped and its event channel has never
  been full: whenever nothing is on its way, a receiver that has applied the payloads sent so far holds
  exactly the state the callbacks and resyncs describe, which is the last reported metadata of every object that is not a
  CustomResourceDefinition and is not deleted.\<close>

theorem cluster_to_receiver:
  assumes "NewWatcher u None None cfg = Inr w" "reach (pstep calm_step crd_calm_step) (psys_init w cfg) p"
    and "settled p" "\<not> ch_closed (stopCh (ps_watcher p))" "ch_dropped (Events (ps_watcher p)) = []"
  shows "replica (ch_sent (Payloads (ds_buf (ps_buffer p)))) = cluster_state (instance_requests (ps_callbacks p))"
  using settled_replica [OF reach_compose_inv [OF assms(2,1)] assms(3-5)] .

text \<open>The same for custom resource definitions, with the blocking sends of deletions: on every calm schedule, as long
  as the watcher is not stopped and no add was given up because the CRD channel was full, whenever nothing is on its
  way the receiver of the capabilities payloads knows exactly the names of the definitions the callbacks have added and not
  deleted since.\<close>

theorem crds_to_receiver:
  assumes "NewWatcher u None None cfg = Inr w" "reach (pstep calm_step crd_calm_step) (psys_init w cfg) p"
    and "settled_crds p" "\<not> ch_closed (stopCh (ps_watcher p))" "ch_dropped (CrdEvents (ps_watcher p)) = []"
  shows "crd_replica (ch_sent (crd_Payloads (cs_buf (ps_crds p)))) = crd_state (crd_requests (ps_callbacks p))"
  using settled_crd_replica [OF reach_compose_inv [OF assms(2,1)] assms(3-5)] .

text \<open>A deployment and a service are added, the deployment is relabelled, its timers fire, the service is deleted; a
  definition is added, and flushed by the second buffer.\<close>

definition object_version :: "string \<Rightarrow> string \<Rightarrow> string \<Rightarrow> unstructured" where
  "object_version kind nm ver =
     \<lparr>GetNamespace = ''default'', GetAPIVersion = ''apps/v1'', GetKind = kind, GetName = nm,
      GetLabels = Some [(''version'', ver)], GetAnnotations = None, GetCreationTimestamp = 0, GetResourceVersion = ver\<rparr>"

definition sample_callbacks :: "callback list" where
  "sample_callbacks =
     [OnAdd (Unstructured (object_version ''Deployment'' ''x'' ''1'')), OnAdd (Unstructured (object_version ''Service'' ''y'' ''1'')),
      OnAdd (Unstructured test_crd), OnUpdate (Unstructured test_crd) (Unstructured test_crd),
      OnUpdate (Unstructured (object_version ''Deployment'' ''x'' ''1'')) (Unstructured (object_version ''Deployment'' ''x'' ''2'')),
      OnDelete (DeletedFinalStateUnknown (Unstructured (object_version ''Service'' ''y'' ''1'')))]"

definition sample_ID :: "string \<Rightarrow> string \<Rightarrow> string" where
  "sample_ID kind nm = ri_ID (Extract (object_version kind nm []))"

definition sample_schedule :: "plabel list" where
  "sample_schedule =
     (let x = sample_ID ''Deployment'' ''x''
      in map (PCallback False) sample_callbacks @
         [PReceive, PReceive, PReceive, PReceive, PBuffer (LRun []), PBuffer (LTime 10), PBuffer (LExpire 0),
          PBuffer (LTimer 0 []), PBuffer (LTimer 0 []), PBuffer (LTimer 0 [x]), PBuffer (LTimer 0 []),
          PCrdReceive, PCrdBuffer (CLTime 10), PCrdBuffer (CLExpire 0), PCrdBuffer (CLTimer 0 []),
          PCrdBuffer (CLTimer 0 []), PCrdBuffer (CLTimer 0 [GetName test_crd]), PCrdBuffer (CLTimer 0 [])])"

text \<open>The schedule needs room for four events and one definition; the capacities are otherwise left open.\<close>

definition roomy_watcher :: "nat \<Rightarrow> nat \<Rightarrow> Watcher" where
  "roomy_watcher m n =
     \<lparr>w_filter = New_filter (\<lambda>s. s) [] [], w_resyncInterval = 0, watchCRDs = True,
      Events = make_chan (Suc (Suc (Suc (Suc m)))), CrdEvents = make_chan (Suc n),
      watchedGVRs = [], informers = [], stopCh = make_chan 0, stopOnce = False\<rparr>"

lemma sample_watcher: "NewWatcher (\<lambda>s. s) None None (crd_config 1) = Inr (roomy_watcher 9996 999)"
  by (simp add: NewWatcher_def roomy_watcher_def crd_config_def)

lemma sample_schedule_ends:
  "ends_in (pstep calm_step crd_calm_step) sample_schedule (psys_init (roomy_watcher m n) (crd_config 1))
     (\<lambda>p. settled p \<and> \<not> ch_closed (stopCh (ps_watcher p)) \<and> ch_dropped (Events (ps_watcher p)) = [] \<and>
        ps_callbacks p = sample_callbacks \<and> settled_crds p \<and> ch_dropped (CrdEvents (ps_watcher p)) = [] \<and>
        watchCRDs (ps_watcher p))"
  by code_simp

theorem cluster_to_receiver_witness:
  "\<exists>w p. NewWatcher (\<lambda>s. s) None None (crd_config 1) = Inr w \<and>
     reach (pstep calm_step crd_calm_step) (psys_init w (crd_config 1)) p \<and> settled p \<and>
     replica (ch_sent (Payloads (ds_buf (ps_buffer p)))) (sample_ID ''Deployment'' ''x'') =
       Some (Extract (object_version ''Deployment'' ''x'' ''2'')) \<and>
     replica (ch_sent (Payloads (ds_buf (ps_buffer p)))) (sample_ID ''Service'' ''y'') = None"
proof -
  let ?w = "roomy_watcher 9996 999"
  obtain p where p: "reach (pstep calm_step crd_calm_step) (psys_init ?w (crd_config 1)) p" "settled p"
    "\<not> ch_closed (stopCh (ps_watcher p))" "ch_dropped (Events (ps_watcher p)) = []" "ps_callbacks p = sample_callbacks"
    by (rule ends_inE [OF sample_schedule_ends [of 9996 999]]) blast
  have "replica (ch_sent (Payloads (ds_buf (ps_buffer p)))) = cluster_state (instance_requests sample_callbacks)"
    using cluster_to_receiver [OF sample_watcher p(1-4)] p(5) by simp
  moreover have "cluster_state (instance_requests sample_callbacks) (sample_ID ''Deployment'' ''x'') =
      Some (Extract (object_version ''Deployment'' ''x'' ''2''))"
    by code_simp
  moreover have "cluster_state (instance_requests sample_callbacks) (sample_ID ''Service'' ''y'') = None"
    by code_simp
  ultimately show ?thesis using sample_watcher p(1,2) by (intro exI [of _ ?w] exI [of _ p]) simp
qed

theorem crds_to_receiver_witness:
  "\<exists>w p. NewWatcher (\<lambda>s. s) None None (crd_config 1) = Inr w \<and>
     reach (pstep calm_step crd_calm_step) (psys_init w (crd_config 1)) p \<and> settled_crds p \<and>
     crd_replica (ch_sent (crd_Payloads (cs_buf (ps_crds p)))) = {''issuers.cert-manager.io''}"
proof -
  let ?w = "roomy_watcher 9996 999"
  obtain p where p: "reach (pstep calm_step crd_calm_step) (psys_init ?w (crd_config 1)) p" "settled_crds p"
    "\<not> ch_closed (stopCh (ps_watcher p))" "ch_dropped (CrdEvents (ps_watcher p)) = []" "ps_callbacks p = sample_callbacks"
    by (rule ends_inE [OF sample_schedule_ends [of 9996 999]]) blast
  have "crd_replica (ch_sent (crd_Payloads (cs_buf (ps_crds p)))) = crd_state (crd_requests sample_callbacks)"
    using crds_to_receiver [OF sample_watcher p(1-4)] p(5) by simp
  moreover have "crd_state (crd_requests sample_callbacks) = {''issuers.cert-manager.io''}"
    by code_simp
  ultimately show ?thesis using sample_watcher p(1,2) by (intro exI [of _ ?w] exI [of _ p]) simp
qed

end
