(* ===== verification/Delivery.thy ===== *)
theory Delivery
  imports At_Least_Once Composition
begin

text \<open>
  The whole program: the composed system of watcher and buffers, with the two senders and their clients. The receiver
  is a server that handles the requests posted to its address, as \<open>At_Least_Once\<close> describes it.
\<close>

section \<open>The senders\<close>

text \<open>A sender loop between two receives: the payload in its hands, if there is one, and the history of its calls of \<open>Send\<close>.\<close>

record 'p sender =
  sd_client :: RESTClient
  sd_busy :: "'p option"
  sd_journal :: "'p delivery list"

definition new_sender :: "RESTClient \<Rightarrow> 'p sender" where
  "new_sender c = \<lparr>sd_client = c, sd_busy = None, sd_journal = []\<rparr>"

definition sender_take :: "'p \<Rightarrow> 'p sender \<Rightarrow> 'p sender option" where
  "sender_take payload sd =
     (case sd_busy sd of None \<Rightarrow> Some (sd\<lparr>sd_busy := Some payload\<rparr>) | Some _ \<Rightarrow> None)"

definition sender_post ::
    "('p \<Rightarrow> bool) \<Rightarrow> ('p \<Rightarrow> json) \<Rightarrow> send_context \<Rightarrow> world \<Rightarrow> 'p sender \<Rightarrow> 'p sender option" where
  "sender_post isEmpty encode ctx w sd =
     (case sd_busy sd of
        None \<Rightarrow> None
      | Some payload \<Rightarrow>
          Some (sd\<lparr>sd_busy := None,
                   sd_journal := sd_journal sd @
                     [(ctx, payload, Send isEmpty (\<lambda>p. Inr (encode p)) (sd_client sd) w (Payload_of payload))]\<rparr>))"

text \<open>The payloads a sender has taken from its channel, and that they are what has left it.\<close>

definition taken :: "'p sender \<Rightarrow> 'p list" where
  "taken sd = map (\<lambda>(ctx, p, r). p) (sd_journal sd) @ (case sd_busy sd of None \<Rightarrow> [] | Some p \<Rightarrow> [p])"

definition feeds :: "'p chan \<Rightarrow> 'p sender \<Rightarrow> bool" where
  "feeds c sd \<longleftrightarrow> taken sd @ ch_buf c = ch_sent c"

lemma take_feeds:
  "feeds c sd \<Longrightarrow> chan_recv c = Received p c' \<Longrightarrow> sender_take p sd = Some sd' \<Longrightarrow>
   feeds c' sd' \<and> sd_client sd' = sd_client sd \<and> sd_journal sd' = sd_journal sd"
  by (auto simp: feeds_def taken_def sender_take_def chan_recv_Received split: option.splits)

lemma post_feeds:
  "feeds c sd \<Longrightarrow> sender_post isEmpty encode ctx w sd = Some sd' \<Longrightarrow>
   feeds c sd' \<and> sd_client sd' = sd_client sd \<and>
   (\<exists>p. sd_journal sd' = sd_journal sd @ [(ctx, p, Send isEmpty (\<lambda>p. Inr (encode p)) (sd_client sd) w (Payload_of p))])"
  by (auto simp: feeds_def taken_def sender_post_def split: option.splits)

text \<open>A channel that only grows at its end.\<close>

definition appends :: "'p chan \<Rightarrow> 'p chan \<Rightarrow> bool" where
  "appends c c' \<longleftrightarrow> (\<exists>new. ch_buf c' = ch_buf c @ new \<and> ch_sent c' = ch_sent c @ new)"

lemma appends_refl [simp]: "appends c c"
  by (simp add: appends_def)

lemma appends_feeds: "appends c c' \<Longrightarrow> feeds c sd \<Longrightarrow> feeds c' sd"
  by (auto simp: appends_def feeds_def)

lemma emit_appends [simp]:
  "appends (Payloads d) (Payloads (emitPayload p d))" "appends (Payloads d) (Payloads (closePayloads d))"
  "appends (crd_Payloads e) (crd_Payloads (emitPayload_crd q e))" "appends (crd_Payloads e) (crd_Payloads (closePayloads_crd e))"
  by (auto simp: appends_def emitPayload_def closePayloads_def emitPayload_crd_def closePayloads_crd_def chan_defs)

lemma buffer_appends:
  "dstep l s = Some s' \<Longrightarrow> l \<noteq> LRecv \<Longrightarrow> appends (Payloads (ds_buf s)) (Payloads (ds_buf s'))"
  by (cases l)
    (auto simp: run_step.simps timer_step.simps Let_def split: if_splits option.splits prod.splits
      run_pc.splits timer_pc.splits dest!: collect_frame)

lemma crd_buffer_appends:
  "cstep l s = Some s' \<Longrightarrow> l \<noteq> CLRecv \<Longrightarrow> appends (crd_Payloads (cs_buf s)) (crd_Payloads (cs_buf s'))"
  by (cases l)
    (auto simp: run_step_crd.simps timer_step_crd.simps Let_def split: if_splits option.splits prod.splits
      crun_pc.splits ctimer_pc.splits dest!: collect_frame_crd)

section \<open>The system\<close>

record wsys =
  ws_system :: psys
  ws_sender :: "SyncPayload sender"
  ws_crdSender :: "CrdSyncPayload sender"

datatype wlabel =
    WSystem plabel
  | WTake
  | WPost send_context world
  | WCrdTake
  | WCrdPost send_context world

definition wsys_init :: "Watcher \<Rightarrow> Config \<Rightarrow> wsys" where
  "wsys_init w cfg =
     \<lparr>ws_system = psys_init w cfg, ws_sender = new_sender (New_client (InstancesEndpoint cfg) []),
      ws_crdSender = new_sender (New_client (CapabilitiesEndpoint cfg) [])\<rparr>"

text \<open>A sender takes a payload from the channel of its buffer, and posts it; the receives of the composed system happen in no
  other way.\<close>

fun wstep ::
    "(dlabel \<Rightarrow> dsys \<Rightarrow> dsys option) \<Rightarrow> (clabel \<Rightarrow> csys \<Rightarrow> csys option) \<Rightarrow> wlabel \<Rightarrow> wsys \<Rightarrow> wsys option" where
  "wstep bstep kstep (WSystem l) x =
     (case l of
        PBuffer LRecv \<Rightarrow> None
      | PCrdBuffer CLRecv \<Rightarrow> None
      | _ \<Rightarrow> map_option (\<lambda>p. x\<lparr>ws_system := p\<rparr>) (pstep bstep kstep l (ws_system x)))"
| "wstep bstep kstep WTake x =
     (case chan_recv (Payloads (ds_buf (ps_buffer (ws_system x)))) of
        Received payload c \<Rightarrow>
          (case (pstep bstep kstep (PBuffer LRecv) (ws_system x), sender_take payload (ws_sender x)) of
             (Some p, Some sd) \<Rightarrow> Some (x\<lparr>ws_system := p, ws_sender := sd\<rparr>)
           | _ \<Rightarrow> None)
      | _ \<Rightarrow> None)"
| "wstep bstep kstep (WPost ctx w) x =
     map_option (\<lambda>sd. x\<lparr>ws_sender := sd\<rparr>) (sender_post IsEmpty json_SyncPayload ctx w (ws_sender x))"
| "wstep bstep kstep WCrdTake x =
     (case chan_recv (crd_Payloads (cs_buf (ps_crds (ws_system x)))) of
        Received payload c \<Rightarrow>
          (case (pstep bstep kstep (PCrdBuffer CLRecv) (ws_system x), sender_take payload (ws_crdSender x)) of
             (Some p, Some sd) \<Rightarrow> Some (x\<lparr>ws_system := p, ws_crdSender := sd\<rparr>)
           | _ \<Rightarrow> None)
      | _ \<Rightarrow> None)"
| "wstep bstep kstep (WCrdPost ctx w) x =
     map_option (\<lambda>sd. x\<lparr>ws_crdSender := sd\<rparr>) (sender_post IsEmpty_crd json_CrdSyncPayload ctx w (ws_crdSender x))"

section \<open>The invariant\<close>

definition deliver_inv :: "Config \<Rightarrow> wsys \<Rightarrow> bool" where
  "deliver_inv cfg x \<longleftrightarrow>
     compose_inv (ws_system x) \<and>
     feeds (Payloads (ds_buf (ps_buffer (ws_system x)))) (ws_sender x) \<and>
     feeds (crd_Payloads (cs_buf (ps_crds (ws_system x)))) (ws_crdSender x) \<and>
     sd_client (ws_sender x) = New_client (InstancesEndpoint cfg) [] \<and>
     sd_client (ws_crdSender x) = New_client (CapabilitiesEndpoint cfg) [] \<and>
     instance_wire.sent_with (sd_client (ws_sender x)) (sd_journal (ws_sender x)) \<and>
     crd_wire.sent_with (sd_client (ws_crdSender x)) (sd_journal (ws_crdSender x))"

lemma pstep_buffer:
  assumes "pstep bstep kstep l p = Some p'" "l \<noteq> PBuffer LRecv"
  shows "ps_buffer p' = ps_buffer p \<or> (\<exists>b. b \<noteq> LRecv \<and> bstep b (ps_buffer p) = Some (ps_buffer p'))"
proof (cases l)
  case (PBuffer b)
  then have "b \<noteq> LRecv" "bstep b (ps_buffer p) = Some (ps_buffer p')"
    using assms by (auto split: dlabel.splits option.splits)
  then show ?thesis by blast
next
  case PReceive
  then obtain e where "bstep (LEvent e) (ps_buffer p) = Some (ps_buffer p')"
    using assms(1) by (auto split: recv.splits option.splits)
  then show ?thesis by blast
qed (use assms(1) in \<open>auto simp del: resync_items.simps split: option.splits recv.splits clabel.splits if_splits\<close>)

lemma pstep_crds:
  assumes "pstep bstep kstep l p = Some p'" "l \<noteq> PCrdBuffer CLRecv"
  shows "ps_crds p' = ps_crds p \<or> (\<exists>b. b \<noteq> CLRecv \<and> kstep b (ps_crds p) = Some (ps_crds p'))"
proof (cases l)
  case (PCrdBuffer b)
  then have "b \<noteq> CLRecv" "kstep b (ps_crds p) = Some (ps_crds p')"
    using assms by (auto split: clabel.splits option.splits if_splits)
  then show ?thesis by blast
next
  case PCrdReceive
  then obtain e where "kstep (CLEvent e) (ps_crds p) = Some (ps_crds p')"
    using assms(1) by (auto split: recv.splits option.splits if_splits)
  then show ?thesis by blast
qed (use assms(1) in \<open>auto simp del: resync_items.simps split: option.splits recv.splits dlabel.splits\<close>)

lemma pstep_appends:
  assumes "pstep calm_step crd_calm_step l p = Some p'" "l \<noteq> PBuffer LRecv" "l \<noteq> PCrdBuffer CLRecv"
  shows "appends (Payloads (ds_buf (ps_buffer p))) (Payloads (ds_buf (ps_buffer p')))"
    "appends (crd_Payloads (cs_buf (ps_crds p))) (crd_Payloads (cs_buf (ps_crds p')))"
  using pstep_buffer [OF assms(1,2)] pstep_crds [OF assms(1,3)] calm_step_dstep crd_calm_step_cstep
    buffer_appends crd_buffer_appends by (metis appends_refl)+

lemma pstep_recv:
  assumes "chan_recv (Payloads (ds_buf (ps_buffer p))) = Received v c"
    and "pstep calm_step crd_calm_step (PBuffer LRecv) p = Some p'"
  shows "Payloads (ds_buf (ps_buffer p')) = c" "ps_crds p' = ps_crds p"
  using assms by (auto dest!: calm_step_dstep split: option.splits)

lemma pstep_crd_recv:
  assumes "chan_recv (crd_Payloads (cs_buf (ps_crds p))) = Received v c"
    and "pstep calm_step crd_calm_step (PCrdBuffer CLRecv) p = Some p'"
  shows "crd_Payloads (cs_buf (ps_crds p')) = c" "ps_buffer p' = ps_buffer p"
  using assms by (auto dest!: crd_calm_step_cstep split: option.splits if_splits)

lemma wstep_system:
  "wstep bstep kstep (WSystem k) x = Some x' \<longleftrightarrow>
     k \<noteq> PBuffer LRecv \<and> k \<noteq> PCrdBuffer CLRecv \<and>
     (\<exists>p. pstep bstep kstep k (ws_system x) = Some p \<and> x' = x\<lparr>ws_system := p\<rparr>)"
  by (auto split: plabel.splits dlabel.splits clabel.splits simp del: pstep.simps)

lemma deliver_inv_step:
  assumes "deliver_inv cfg x" "wstep calm_step crd_calm_step l x = Some x'"
  shows "deliver_inv cfg x'"
proof (cases l)
  case (WSystem k)
  then obtain p where p: "pstep calm_step crd_calm_step k (ws_system x) = Some p" "x' = x\<lparr>ws_system := p\<rparr>"
    "k \<noteq> PBuffer LRecv" "k \<noteq> PCrdBuffer CLRecv"
    using assms(2) unfolding WSystem wstep_system by blast
  have "compose_inv p" using assms(1) compose_inv_step [OF _ p(1)] by (simp add: deliver_inv_def)
  with assms(1) p(2) pstep_appends [OF p(1,3,4)] show ?thesis by (auto simp: deliver_inv_def intro: appends_feeds)
next
  case WTake
  then obtain v c p sd where r: "chan_recv (Payloads (ds_buf (ps_buffer (ws_system x)))) = Received v c"
    "pstep calm_step crd_calm_step (PBuffer LRecv) (ws_system x) = Some p" "sender_take v (ws_sender x) = Some sd"
    and x': "x' = x\<lparr>ws_system := p, ws_sender := sd\<rparr>"
    using assms(2) by (auto split: recv.splits option.splits simp del: pstep.simps)
  have "compose_inv p" using assms(1) compose_inv_step [OF _ r(2)] by (simp add: deliver_inv_def)
  with assms(1) x' pstep_recv [OF r(1,2)] take_feeds [OF _ r(1,3)] show ?thesis by (auto simp: deliver_inv_def)
next
  case WCrdTake
  then obtain v c p sd where r: "chan_recv (crd_Payloads (cs_buf (ps_crds (ws_system x)))) = Received v c"
    "pstep calm_step crd_calm_step (PCrdBuffer CLRecv) (ws_system x) = Some p" "sender_take v (ws_crdSender x) = Some sd"
    and x': "x' = x\<lparr>ws_system := p, ws_crdSender := sd\<rparr>"
    using assms(2) by (auto split: recv.splits option.splits simp del: pstep.simps)
  have "compose_inv p" using assms(1) compose_inv_step [OF _ r(2)] by (simp add: deliver_inv_def)
  with assms(1) x' pstep_crd_recv [OF r(1,2)] take_feeds [OF _ r(1,3)] show ?thesis by (auto simp: deliver_inv_def)
next
  case (WPost ctx w)
  then obtain sd where sd: "sender_post IsEmpty json_SyncPayload ctx w (ws_sender x) = Some sd" "x' = x\<lparr>ws_sender := sd\<rparr>"
    using assms(2) by auto
  have inv: "deliver_inv cfg x" "feeds (Payloads (ds_buf (ps_buffer (ws_system x)))) (ws_sender x)"
    using assms(1) unfolding deliver_inv_def by blast+
  obtain p where "sd_journal sd = sd_journal (ws_sender x) @
      [(ctx, p, instance_send.deliver (sd_client (ws_sender x)) w (Payload_of p))]"
    "feeds (Payloads (ds_buf (ps_buffer (ws_system x)))) sd" "sd_client sd = sd_client (ws_sender x)"
    using post_feeds [OF inv(2) sd(1)] by (auto simp: instance_send.deliver_def)
  with inv(1) sd(2) show ?thesis unfolding deliver_inv_def by auto
next
  case (WCrdPost ctx w)
  then obtain sd where sd: "sender_post IsEmpty_crd json_CrdSyncPayload ctx w (ws_crdSender x) = Some sd"
    "x' = x\<lparr>ws_crdSender := sd\<rparr>"
    using assms(2) by auto
  have inv: "deliver_inv cfg x" "feeds (crd_Payloads (cs_buf (ps_crds (ws_system x)))) (ws_crdSender x)"
    using assms(1) unfolding deliver_inv_def by blast+
  obtain p where "sd_journal sd = sd_journal (ws_crdSender x) @
      [(ctx, p, crd_send.deliver (sd_client (ws_crdSender x)) w (Payload_of p))]"
    "feeds (crd_Payloads (cs_buf (ps_crds (ws_system x)))) sd" "sd_client sd = sd_client (ws_crdSender x)"
    using post_feeds [OF inv(2) sd(1)] by (auto simp: crd_send.deliver_def)
  with inv(1) sd(2) show ?thesis unfolding deliver_inv_def by auto
qed

interpretation delivery: invariant_system "wstep calm_step crd_calm_step" "deliver_inv cfg" for cfg
  by unfold_locales (rule deliver_inv_step)

lemma wsys_init_inv:
  assumes "NewWatcher u None None cfg = Inr w"
  shows "deliver_inv cfg (wsys_init w cfg)"
  using psys_init_inv [OF assms]
  by (simp add: deliver_inv_def wsys_init_def new_sender_def feeds_def taken_def psys_init_def dsys_init_def csys_init_def
      NewDebounceBuffer_def NewCrdDebounceBuffer_def instance_wire.sent_with_def crd_wire.sent_with_def)

section \<open>From the informers to the servers\<close>

text \<open>The state of a server that has handled the bodies, and what a payload is about.\<close>

definition server_state :: "json list \<Rightarrow> string \<rightharpoonup> ResourceInstance" where
  "server_state bodies = replica (List.map_filter read_SyncPayload bodies)"

definition crd_server_state :: "json list \<Rightarrow> string set" where
  "crd_server_state bodies = crd_replica (List.map_filter read_CrdSyncPayload bodies)"

definition about_instances :: "SyncPayload \<Rightarrow> string set" where
  "about_instances p = ri_ID ` set (Upserts p) \<union> set (Deletes p)"

definition about_crds :: "CrdSyncPayload \<Rightarrow> string set" where
  "about_crds p = set (crd_Upserts p) \<union> set (crd_Deletes p)"

lemma about_eq: "about_instances = instance_wire.about" "about_crds = crd_wire.about"
  by (simp_all add: fun_eq_iff about_instances_def about_crds_def instance_wire.about_def crd_wire.about_def touched_def
      payload_view_def payload_view_crd_def)

text \<open>No payload waits in the channel or is in the hands of the sender.\<close>

definition all_sent :: "'p chan \<Rightarrow> 'p sender \<Rightarrow> bool" where
  "all_sent c sd \<longleftrightarrow> ch_buf c = [] \<and> sd_busy sd = None"

lemma all_sent_journal: "feeds c sd \<Longrightarrow> all_sent c sd \<Longrightarrow> map (\<lambda>(ctx, p, r). p) (sd_journal sd) = ch_sent c"
  by (simp add: feeds_def all_sent_def taken_def)

lemma journal_view: "map (\<lambda>(ctx, p, r). f p) js = map f (map (\<lambda>(ctx, p, r). p) js)"
  by (induction js) auto

lemmas reach_deliver_inv = delivery.reach_keeps [OF _ wsys_init_inv]

lemma deliver_inv_sent:
  assumes "deliver_inv cfg x"
  shows "instance_wire.sent_with (New_client (InstancesEndpoint cfg) []) (sd_journal (ws_sender x))"
    "crd_wire.sent_with (New_client (CapabilitiesEndpoint cfg) []) (sd_journal (ws_crdSender x))"
  using assms by (auto simp: deliver_inv_def)

lemma settled_server:
  assumes "deliver_inv cfg x" "p = ws_system x" "settled p" "all_sent (Payloads (ds_buf (ps_buffer p))) (ws_sender x)"
    and "\<not> ch_closed (stopCh (ps_watcher p))" "ch_dropped (Events (ps_watcher p)) = []"
    and "served (InstancesEndpoint cfg) (sd_journal (ws_sender x)) bodies"
    and "last_delivered about_instances (sd_journal (ws_sender x)) i"
  shows "server_state bodies i = map_option canonical (cluster_state (instance_requests (ps_callbacks p)) i)"
proof -
  have r: "replica (ch_sent (Payloads (ds_buf (ps_buffer p)))) = cluster_state (instance_requests (ps_callbacks p))"
    using assms(1-6) by (intro settled_replica) (simp_all add: deliver_inv_def)
  have j: "map (\<lambda>(ctx, p, r). p) (sd_journal (ws_sender x)) = ch_sent (Payloads (ds_buf (ps_buffer p)))"
    using assms(1,2,4) by (intro all_sent_journal) (simp_all add: deliver_inv_def)
  from instance_wire.served_state [OF assms(7) deliver_inv_sent(1) [OF assms(1)], of i] assms(8) show ?thesis
    unfolding journal_view [of payload_view] j server_state_def replica_view [symmetric] r about_eq by simp
qed

lemma settled_crd_server:
  assumes "deliver_inv cfg x" "p = ws_system x" "settled_crds p" "all_sent (crd_Payloads (cs_buf (ps_crds p))) (ws_crdSender x)"
    and "\<not> ch_closed (stopCh (ps_watcher p))" "ch_dropped (CrdEvents (ps_watcher p)) = []"
    and "served (CapabilitiesEndpoint cfg) (sd_journal (ws_crdSender x)) bodies"
    and "last_delivered about_crds (sd_journal (ws_crdSender x)) n"
  shows "n \<in> crd_server_state bodies \<longleftrightarrow> n \<in> crd_state (crd_requests (ps_callbacks p))"
proof -
  have r: "crd_replica (ch_sent (crd_Payloads (cs_buf (ps_crds p)))) = crd_state (crd_requests (ps_callbacks p))"
    using assms(1-6) by (intro settled_crd_replica) (simp_all add: deliver_inv_def)
  have j: "map (\<lambda>(ctx, p, r). p) (sd_journal (ws_crdSender x)) = ch_sent (crd_Payloads (cs_buf (ps_crds p)))"
    using assms(1,2,4) by (intro all_sent_journal) (simp_all add: deliver_inv_def)
  from crd_wire.served_state [OF assms(7) deliver_inv_sent(2) [OF assms(1)], of n] assms(8) show ?thesis
    unfolding journal_view [of payload_view_crd] j crd_server_state_def r [symmetric] crd_replica_view about_eq
    by (simp add: dom_def option.map_ident)
qed

end
