(* ===== verification/Composition_Liveness.thy ===== *)
theory Composition_Liveness
  imports Composition
begin

text \<open>
  The composed system catches up: while the watcher and the buffers run, whatever has happened so far, the receives of the two
  \<open>Run\<close> methods, the timers, the flush ticks and the senders can go on until nothing is on its way.
\<close>

section \<open>Consumers that can always go on\<close>

text \<open>A running consumer can become idle by steps of its own, and an idle one accepts every event and keeps running.\<close>

locale live_consumer = consumer step Inv receive got
  for step :: "'l \<Rightarrow> 's \<Rightarrow> 's option" and Inv :: "'s \<Rightarrow> bool" and receive :: "'e \<Rightarrow> 'l" and got :: "'s \<Rightarrow> 'e list" +
  fixes up :: "'s \<Rightarrow> bool" and at_rest :: "'s \<Rightarrow> bool"
  assumes rests: "Inv s \<Longrightarrow> up s \<Longrightarrow>
      \<exists>ls s'. run_steps step ls s = Some s' \<and> (\<forall>l \<in> set ls. \<forall>e. l \<noteq> receive e) \<and> at_rest s'"
    and receives: "Inv s \<Longrightarrow> at_rest s \<Longrightarrow> \<exists>s'. step (receive e) s = Some s' \<and> up s'"
begin

text \<open>The consumer with its channel: a receive, or a step of its own.\<close>

fun chan_step :: "'l option \<Rightarrow> 'e chan \<times> 's \<Rightarrow> ('e chan \<times> 's) option" where
  "chan_step None (c, s) =
     (case chan_recv c of
        Received e c' \<Rightarrow> map_option (Pair c') (step (receive e) s)
      | _ \<Rightarrow> None)"
| "chan_step (Some l) (c, s) = (if \<exists>e. l = receive e then None else map_option (Pair c) (step l s))"

lemma own_steps:
  "run_steps step ls s = Some s' \<Longrightarrow> \<forall>l \<in> set ls. \<forall>e. l \<noteq> receive e \<Longrightarrow>
   run_steps chan_step (map Some ls) (c, s) = Some (c, s')"
  by (induction ls arbitrary: s) (auto split: option.splits)

lemma drains:
  assumes "Inv s" "up s"
  shows "\<exists>ls s'. run_steps chan_step ls (c, s) = Some (c\<lparr>ch_buf := []\<rparr>, s') \<and> at_rest s'"
  using assms
proof (induction "ch_buf c" arbitrary: c s)
  case Nil
  then obtain ls s' where s': "run_steps step ls s = Some s'" "\<forall>l \<in> set ls. \<forall>e. l \<noteq> receive e" "at_rest s'"
    using rests by blast
  have "c\<lparr>ch_buf := []\<rparr> = c" by (simp add: Nil.hyps)
  with own_steps [OF s'(1,2)] s'(3) show ?case by metis
next
  case (Cons e es)
  let ?c = "c\<lparr>ch_buf := es\<rparr>"
  have r: "chan_recv c = Received e ?c" by (simp add: chan_recv_def flip: Cons.hyps(2))
  obtain ls u where u: "run_steps step ls s = Some u" "\<forall>l \<in> set ls. \<forall>e. l \<noteq> receive e" "at_rest u"
    using rests Cons.prems by blast
  then have "Inv u" using run_keeps Cons.prems(1) by blast
  then obtain v where v: "step (receive e) u = Some v" "up v" "Inv v" using receives u(3) step_keeps by metis
  obtain ks s' where k: "run_steps chan_step ks (?c, v) = Some (?c\<lparr>ch_buf := []\<rparr>, s')" "at_rest s'"
    using Cons.hyps(1) [of ?c v] v by auto
  have "run_steps chan_step (map Some ls @ None # ks) (c, s) = Some (c\<lparr>ch_buf := []\<rparr>, s')"
    using own_steps [OF u(1,2), of c] k(1) by (simp add: run_steps_append r v(1))
  with k(2) show ?case by blast
qed

end

section \<open>Both buffers\<close>

text \<open>A \<open>Run\<close> that has not seen the cancellation of its context.\<close>

fun serving :: "run_pc \<Rightarrow> bool" where
  "serving RSelect = True"
| "serving (REmitDelete i) = True"
| "serving (REmitBatch ups) = True"
| "serving _ = False"

fun serving_crd :: "crun_pc \<Rightarrow> bool" where
  "serving_crd CRSelect = True"
| "serving_crd (CREmitDelete i) = True"
| "serving_crd (CREmitBatch ups) = True"
| "serving_crd _ = False"

lemma running_view: "running (bs_run (dabs s)) \<longleftrightarrow> serving (ds_run s)" "running (bs_run (cabs t)) \<longleftrightarrow> serving_crd (cs_run t)"
  by (cases "ds_run s"; simp) (cases "cs_run t"; simp)

interpretation live_instances: live_consumer calm_step dconverge.converges LEvent "\<lambda>s. map snd (ds_events s)"
  "\<lambda>s. serving (ds_run s)" "\<lambda>s. idle (dabs s)"
proof unfold_locales
  show "\<exists>ls s'. run_steps calm_step ls s = Some s' \<and> (\<forall>l \<in> set ls. \<forall>e. l \<noteq> LEvent e) \<and> idle (dabs s')"
    if "dconverge.converges s" "serving (ds_run s)" for s
    using dconverge.settles [OF that(1)] that(2) unfolding running_view calm_step_def dimpl.silent_def by fastforce
  show "\<exists>s'. calm_step (LEvent e) s = Some s' \<and> serving (ds_run s')" if "dconverge.converges s" "idle (dabs s)" for s e
    using dconverge.idle_accepts [OF that, of "LEvent e"] unfolding running_view calm_step_def by auto
qed

interpretation live_crds: live_consumer crd_calm_step cflow.converges CLEvent "\<lambda>s. map snd (cs_events s)"
  "\<lambda>s. serving_crd (cs_run s)" "\<lambda>s. idle (cabs s)"
proof unfold_locales
  show "\<exists>ls s'. run_steps crd_calm_step ls s = Some s' \<and> (\<forall>l \<in> set ls. \<forall>e. l \<noteq> CLEvent e) \<and> idle (cabs s')"
    if "cflow.converges s" "serving_crd (cs_run s)" for s
    using cflow.settles [OF that(1)] that(2) unfolding running_view crd_calm_step_def cimpl.silent_def by fastforce
  show "\<exists>s'. crd_calm_step (CLEvent e) s = Some s' \<and> serving_crd (cs_run s')" if "cflow.converges s" "idle (cabs s)" for s e
    using cflow.idle_accepts [OF that, of "CLEvent e"] unfolding running_view crd_calm_step_def by auto
qed

section \<open>In the composed system\<close>

fun instance_label :: "dlabel option \<Rightarrow> plabel" where
  "instance_label None = PReceive"
| "instance_label (Some l) = PBuffer l"

fun crd_label :: "clabel option \<Rightarrow> plabel" where
  "crd_label None = PCrdReceive"
| "crd_label (Some l) = PCrdBuffer l"

lemma instance_part:
  "live_instances.chan_step l (c, s) = Some (c', s') \<Longrightarrow>
   pstep calm_step ks (instance_label l) (p\<lparr>ps_watcher := w\<lparr>Events := c\<rparr>, ps_buffer := s\<rparr>) =
     Some (p\<lparr>ps_watcher := w\<lparr>Events := c'\<rparr>, ps_buffer := s'\<rparr>)"
  by (cases l) (auto split: recv.splits dlabel.splits if_splits)

lemma crd_part:
  "live_crds.chan_step l (c, s) = Some (c', s') \<Longrightarrow> watchCRDs w \<Longrightarrow>
   pstep bs crd_calm_step (crd_label l) (p\<lparr>ps_watcher := w\<lparr>CrdEvents := c\<rparr>, ps_crds := s\<rparr>) =
     Some (p\<lparr>ps_watcher := w\<lparr>CrdEvents := c'\<rparr>, ps_crds := s'\<rparr>)"
  by (cases l) (auto split: recv.splits clabel.splits if_splits)

lemma instances_settle:
  assumes "compose_inv p" "serving (ds_run (ps_buffer p))"
  shows "\<exists>ls p'. run_steps (pstep calm_step crd_calm_step) ls p = Some p' \<and> settled p' \<and>
    ch_buf (Payloads (ds_buf (ps_buffer p'))) = [] \<and> ps_callbacks p' = ps_callbacks p \<and> ps_crds p' = ps_crds p \<and>
    ps_watcher p' = (ps_watcher p)\<lparr>Events := (Events (ps_watcher p))\<lparr>ch_buf := []\<rparr>\<rparr>"
proof -
  let ?w = "ps_watcher p"
  let ?emb = "\<lambda>(c, s). p\<lparr>ps_watcher := ?w\<lparr>Events := c\<rparr>, ps_buffer := s\<rparr>"
  have inv: "dconverge.converges (ps_buffer p)" using assms(1) by (simp add: compose_inv_def instances.fed_def)
  obtain ls s' where s': "run_steps live_instances.chan_step ls (Events ?w, ps_buffer p) = Some ((Events ?w)\<lparr>ch_buf := []\<rparr>, s')"
    "idle (dabs s')"
    using live_instances.drains [OF inv assms(2)] by blast
  have "run_steps (pstep calm_step crd_calm_step) (map instance_label ls) (?emb (Events ?w, ps_buffer p)) =
      Some (?emb ((Events ?w)\<lparr>ch_buf := []\<rparr>, s'))"
    by (rule run_steps_embed [OF _ s'(1)]) (auto simp: instance_part)
  moreover have "?emb (Events ?w, ps_buffer p) = p" by simp
  moreover have "settled (?emb ((Events ?w)\<lparr>ch_buf := []\<rparr>, s'))" "ch_buf (Payloads (ds_buf s')) = []"
    using s'(2) by (simp_all add: settled_def idle_def flushed_def entries_of_empty_iff held_batches_def)
  ultimately show ?thesis by force
qed

lemma crds_settle:
  assumes "compose_inv p" "serving_crd (cs_run (ps_crds p))" "watchCRDs (ps_watcher p)"
  shows "\<exists>ls p'. run_steps (pstep calm_step crd_calm_step) ls p = Some p' \<and> settled_crds p' \<and>
    ch_buf (crd_Payloads (cs_buf (ps_crds p'))) = [] \<and> ps_callbacks p' = ps_callbacks p \<and> ps_buffer p' = ps_buffer p \<and>
    ps_watcher p' = (ps_watcher p)\<lparr>CrdEvents := (CrdEvents (ps_watcher p))\<lparr>ch_buf := []\<rparr>\<rparr>"
proof -
  let ?w = "ps_watcher p"
  let ?emb = "\<lambda>(c, s). p\<lparr>ps_watcher := ?w\<lparr>CrdEvents := c\<rparr>, ps_crds := s\<rparr>"
  have inv: "cflow.converges (ps_crds p)" using assms(1) by (simp add: compose_inv_def crds.fed_def)
  obtain ls s' where s': "run_steps live_crds.chan_step ls (CrdEvents ?w, ps_crds p) = Some ((CrdEvents ?w)\<lparr>ch_buf := []\<rparr>, s')"
    "idle (cabs s')"
    using live_crds.drains [OF inv assms(2)] by blast
  have "run_steps (pstep calm_step crd_calm_step) (map crd_label ls) (?emb (CrdEvents ?w, ps_crds p)) =
      Some (?emb ((CrdEvents ?w)\<lparr>ch_buf := []\<rparr>, s'))"
    by (rule run_steps_embed [OF _ s'(1)]) (auto simp: crd_part assms(3))
  moreover have "?emb (CrdEvents ?w, ps_crds p) = p" by simp
  moreover have "settled_crds (?emb ((CrdEvents ?w)\<lparr>ch_buf := []\<rparr>, s'))" "ch_buf (crd_Payloads (cs_buf s')) = []"
    using s'(2) by (simp_all add: settled_crds_def idle_def flushed_def entries_of_empty_iff_crd ctimer_held_def)
  ultimately show ?thesis by force
qed

lemma system_settles:
  assumes "compose_inv p" "serving (ds_run (ps_buffer p))" "serving_crd (cs_run (ps_crds p))"
  shows "\<exists>ls p'. run_steps (pstep calm_step crd_calm_step) ls p = Some p' \<and> compose_inv p' \<and>
    ps_callbacks p' = ps_callbacks p \<and> stopCh (ps_watcher p') = stopCh (ps_watcher p) \<and>
    ch_dropped (Events (ps_watcher p')) = ch_dropped (Events (ps_watcher p)) \<and>
    ch_dropped (CrdEvents (ps_watcher p')) = ch_dropped (CrdEvents (ps_watcher p)) \<and>
    settled p' \<and> ch_buf (Payloads (ds_buf (ps_buffer p'))) = [] \<and>
    (watchCRDs (ps_watcher p) \<longrightarrow> settled_crds p' \<and> ch_buf (crd_Payloads (cs_buf (ps_crds p'))) = [])"
proof -
  let ?step = "pstep calm_step crd_calm_step"
  obtain ls q where q: "run_steps ?step ls p = Some q" "settled q" "ch_buf (Payloads (ds_buf (ps_buffer q))) = []"
    "ps_callbacks q = ps_callbacks p" "ps_crds q = ps_crds p"
    "ps_watcher q = (ps_watcher p)\<lparr>Events := (Events (ps_watcher p))\<lparr>ch_buf := []\<rparr>\<rparr>"
    using instances_settle [OF assms(1,2)] by blast
  have inv: "compose_inv q" using composed.run_keeps [OF q(1) assms(1)] .
  show ?thesis
  proof (cases "watchCRDs (ps_watcher p)")
    case False
    with q inv show ?thesis by (intro exI [of _ ls] exI [of _ q]) simp
  next
    case True
    then obtain ks p' where p': "run_steps ?step ks q = Some p'" "settled_crds p'" "ch_buf (crd_Payloads (cs_buf (ps_crds p'))) = []"
      "ps_callbacks p' = ps_callbacks q" "ps_buffer p' = ps_buffer q"
      "ps_watcher p' = (ps_watcher q)\<lparr>CrdEvents := (CrdEvents (ps_watcher q))\<lparr>ch_buf := []\<rparr>\<rparr>"
      using crds_settle [OF inv] q(5,6) assms(3) by auto
    have "run_steps ?step (ls @ ks) p = Some p'" using q(1) p'(1) by (simp add: run_steps_append)
    moreover have "settled p'" using q(2) p'(5,6) by (simp add: settled_def)
    ultimately show ?thesis
      using p' q composed.run_keeps [OF p'(1) inv] by (intro exI [of _ "ls @ ks"] exI [of _ p']) simp
  qed
qed

section \<open>Properties\<close>

text \<open>Eventual consistency: while the program runs, the receivers catch up. From every state the composed system reaches on
  a calm schedule, as long as neither \<open>Run\<close> has seen the shutdown, the watcher is not stopped and no event was given up because
  a channel was full, the system can go on, without a further callback or resync and without a stop, until nothing is on its way,
  and then the receiver of the instances holds exactly the state the callbacks describe, and, when the CRD pipeline runs, the
  receiver of the capabilities exactly the names of the definitions that are left. No event, no pending entry and no payload
  is stuck in any reachable state.\<close>

theorem receivers_catch_up:
  assumes "NewWatcher u None None cfg = Inr w" "reach (pstep calm_step crd_calm_step) (psys_init w cfg) p"
    and "serving (ds_run (ps_buffer p))" "serving_crd (cs_run (ps_crds p))" "\<not> ch_closed (stopCh (ps_watcher p))"
    and "ch_dropped (Events (ps_watcher p)) = []" "ch_dropped (CrdEvents (ps_watcher p)) = []"
  shows "\<exists>ls p'. run_steps (pstep calm_step crd_calm_step) ls p = Some p' \<and>
    ps_callbacks p' = ps_callbacks p \<and> \<not> ch_closed (stopCh (ps_watcher p')) \<and> settled p' \<and>
    replica (ch_sent (Payloads (ds_buf (ps_buffer p')))) = cluster_state (instance_requests (ps_callbacks p)) \<and>
    (watchCRDs (ps_watcher p) \<longrightarrow> settled_crds p' \<and>
       crd_replica (ch_sent (crd_Payloads (cs_buf (ps_crds p')))) = crd_state (crd_requests (ps_callbacks p)))"
proof -
  obtain ls p' where p': "run_steps (pstep calm_step crd_calm_step) ls p = Some p'" "compose_inv p'"
    "ps_callbacks p' = ps_callbacks p" "stopCh (ps_watcher p') = stopCh (ps_watcher p)"
    "ch_dropped (Events (ps_watcher p')) = ch_dropped (Events (ps_watcher p))"
    "ch_dropped (CrdEvents (ps_watcher p')) = ch_dropped (CrdEvents (ps_watcher p))"
    "settled p'" "watchCRDs (ps_watcher p) \<longrightarrow> settled_crds p'"
    using system_settles [OF reach_compose_inv [OF assms(2,1)] assms(3,4)] by blast
  then show ?thesis
    using settled_replica [OF p'(2,7)] settled_crd_replica [OF p'(2)] assms(5-7)
    by (intro exI [of _ ls] exI [of _ p']) simp
qed

text \<open>All callbacks of the sample have run, and nothing else has.\<close>

lemma sample_callbacks_end:
  "ends_in (pstep calm_step crd_calm_step) (map (PCallback False) sample_callbacks)
     (psys_init (roomy_watcher m n) (crd_config 1))
     (\<lambda>p. serving (ds_run (ps_buffer p)) \<and> serving_crd (cs_run (ps_crds p)) \<and> \<not> ch_closed (stopCh (ps_watcher p)) \<and>
        ch_dropped (Events (ps_watcher p)) = [] \<and> ch_dropped (CrdEvents (ps_watcher p)) = [] \<and>
        ps_callbacks p = sample_callbacks \<and> watchCRDs (ps_watcher p))"
  by code_simp

theorem receivers_catch_up_witness:
  "\<exists>w p ls p'. NewWatcher (\<lambda>s. s) None None (crd_config 1) = Inr w \<and>
     reach (pstep calm_step crd_calm_step) (psys_init w (crd_config 1)) p \<and> ps_callbacks p = sample_callbacks \<and>
     run_steps (pstep calm_step crd_calm_step) ls p = Some p' \<and> settled p' \<and> settled_crds p' \<and>
     replica (ch_sent (Payloads (ds_buf (ps_buffer p')))) = cluster_state (instance_requests sample_callbacks) \<and>
     crd_replica (ch_sent (crd_Payloads (cs_buf (ps_crds p')))) = crd_state (crd_requests sample_callbacks)"
proof -
  let ?w = "roomy_watcher 9996 999"
  obtain p where p: "reach (pstep calm_step crd_calm_step) (psys_init ?w (crd_config 1)) p"
    "serving (ds_run (ps_buffer p))" "serving_crd (cs_run (ps_crds p))" "\<not> ch_closed (stopCh (ps_watcher p))"
    "ch_dropped (Events (ps_watcher p)) = []" "ch_dropped (CrdEvents (ps_watcher p)) = []"
    "ps_callbacks p = sample_callbacks" "watchCRDs (ps_watcher p)"
    by (rule ends_inE [OF sample_callbacks_end [of 9996 999]]) blast
  from receivers_catch_up [OF sample_watcher p(1-6)] p(7,8) show ?thesis
    using sample_watcher p(1) by (intro exI [of _ ?w] exI [of _ p]) auto
qed

end
