(* ===== verification/Delivery_Properties.thy ===== *)
theory Delivery_Properties
  imports Delivery Composition_Liveness Pipeline_Properties
begin

text \<open>
  What the servers know: whenever nothing is on its way, the state the callbacks and resyncs describe; and from every reachable
  state the program can go on until nothing is on its way, if the servers answer.
\<close>

section \<open>A server that answers\<close>

definition answering :: world where
  "answering = \<lparr>newRequest = (\<lambda>_. None), answer = (\<lambda>_ _. Inr (200, NoLocation)), ctxDone = (\<lambda>_. None), randNum = (\<lambda>_. 0), outOfRange = 0\<rparr>"

lemma attempts_default: "attempts (New_client ep []) = 4"
proof -
  have "maxRetries (New_client ep []) = 3" by (simp add: New_client_def)
  then show ?thesis using attempts_eq [of "New_client ep []"] by simp
qed

lemma Send_answered:
  "delivered (ctx, p, Send isEmpty (\<lambda>p. Inr (encode p)) (New_client ep []) answering (Payload_of p))"
proof -
  have s: "newRequest answering = (\<lambda>_. None)" by (simp add: answering_def)
  have "Do answering 0 url body = (Inr 200, [Posted url body])" for url :: string and body :: json
    by (rule Do_answered) (simp add: answering_def)
  then show ?thesis
    unfolding Send_def attempts_default
    by (cases "isEmpty p")
      (simp_all add: isNilPayload_def call_IsEmpty_def numeral_eq_Suc doPost_def s direct_def)
qed

section \<open>Steps of the composed system in the whole program\<close>

text \<open>What the steps of the senders leave of the histories: everything that was delivered, and more.\<close>

definition more_delivered :: "wsys \<Rightarrow> wsys \<Rightarrow> bool" where
  "more_delivered x x' \<longleftrightarrow>
     (list_all delivered (sd_journal (ws_sender x)) \<longrightarrow> list_all delivered (sd_journal (ws_sender x'))) \<and>
     (list_all delivered (sd_journal (ws_crdSender x)) \<longrightarrow> list_all delivered (sd_journal (ws_crdSender x')))"

lemma frees_sender:
  assumes "deliver_inv cfg x"
  shows "\<exists>ls x'. run_steps (wstep calm_step crd_calm_step) ls x = Some x' \<and> ws_system x' = ws_system x \<and>
    sd_busy (ws_sender x') = None \<and> ws_crdSender x' = ws_crdSender x \<and> more_delivered x x'"
proof (cases "sd_busy (ws_sender x)")
  case None
  then show ?thesis by (intro exI [of _ "[]"] exI [of _ x]) (simp add: more_delivered_def)
next
  case (Some p)
  have "sd_client (ws_sender x) = New_client (InstancesEndpoint cfg) []" using assms by (simp add: deliver_inv_def)
  with Send_answered [of LiveContext p IsEmpty json_SyncPayload "InstancesEndpoint cfg"] Some show ?thesis
    by (intro exI [of _ "[WPost LiveContext answering]"]) (auto simp: sender_post_def more_delivered_def)
qed

lemma frees_crdSender:
  assumes "deliver_inv cfg x"
  shows "\<exists>ls x'. run_steps (wstep calm_step crd_calm_step) ls x = Some x' \<and> ws_system x' = ws_system x \<and>
    sd_busy (ws_crdSender x') = None \<and> ws_sender x' = ws_sender x \<and> more_delivered x x'"
proof (cases "sd_busy (ws_crdSender x)")
  case None
  then show ?thesis by (intro exI [of _ "[]"] exI [of _ x]) (simp add: more_delivered_def)
next
  case (Some p)
  have "sd_client (ws_crdSender x) = New_client (CapabilitiesEndpoint cfg) []" using assms by (simp add: deliver_inv_def)
  with Send_answered [of LiveContext p IsEmpty_crd json_CrdSyncPayload "CapabilitiesEndpoint cfg"] Some show ?thesis
    by (intro exI [of _ "[WCrdPost LiveContext answering]"]) (auto simp: sender_post_def more_delivered_def)
qed

lemma lifts_step:
  assumes "deliver_inv cfg x" "pstep calm_step crd_calm_step l (ws_system x) = Some p"
  shows "\<exists>ls x'. run_steps (wstep calm_step crd_calm_step) ls x = Some x' \<and> ws_system x' = p \<and> more_delivered x x'"
proof -
  consider "l = PBuffer LRecv" | "l = PCrdBuffer CLRecv" | "l \<noteq> PBuffer LRecv" "l \<noteq> PCrdBuffer CLRecv" by blast
  then show ?thesis
  proof cases
    case 1
    obtain ls u where u: "run_steps (wstep calm_step crd_calm_step) ls x = Some u" "ws_system u = ws_system x"
      "sd_busy (ws_sender u) = None" "ws_crdSender u = ws_crdSender x" "more_delivered x u"
      using frees_sender [OF assms(1)] by blast
    obtain v c where v: "chan_recv (Payloads (ds_buf (ps_buffer (ws_system x)))) = Received v c"
      using assms(2) 1 by (auto dest!: calm_step_dstep split: option.splits recv.splits)
    let ?x' = "u\<lparr>ws_system := p, ws_sender := (ws_sender u)\<lparr>sd_busy := Some v\<rparr>\<rparr>"
    have "wstep calm_step crd_calm_step WTake u = Some ?x'"
      using v u(2,3) assms(2) 1 by (simp add: sender_take_def del: pstep.simps)
    then have "run_steps (wstep calm_step crd_calm_step) (ls @ [WTake]) x = Some ?x'"
      using u(1) by (simp add: run_steps_append del: wstep.simps)
    moreover have "more_delivered x ?x'" using u(5) by (simp add: more_delivered_def)
    ultimately show ?thesis by (intro exI [of _ "ls @ [WTake]"] exI [of _ ?x']) simp
  next
    case 2
    obtain ls u where u: "run_steps (wstep calm_step crd_calm_step) ls x = Some u" "ws_system u = ws_system x"
      "sd_busy (ws_crdSender u) = None" "ws_sender u = ws_sender x" "more_delivered x u"
      using frees_crdSender [OF assms(1)] by blast
    obtain v c where v: "chan_recv (crd_Payloads (cs_buf (ps_crds (ws_system x)))) = Received v c"
      using assms(2) 2 by (auto dest!: crd_calm_step_cstep split: option.splits recv.splits if_splits)
    let ?x' = "u\<lparr>ws_system := p, ws_crdSender := (ws_crdSender u)\<lparr>sd_busy := Some v\<rparr>\<rparr>"
    have "wstep calm_step crd_calm_step WCrdTake u = Some ?x'"
      using v u(2,3) assms(2) 2 by (simp add: sender_take_def del: pstep.simps)
    then have "run_steps (wstep calm_step crd_calm_step) (ls @ [WCrdTake]) x = Some ?x'"
      using u(1) by (simp add: run_steps_append del: wstep.simps)
    moreover have "more_delivered x ?x'" using u(5) by (simp add: more_delivered_def)
    ultimately show ?thesis by (intro exI [of _ "ls @ [WCrdTake]"] exI [of _ ?x']) simp
  next
    case 3
    then have "wstep calm_step crd_calm_step (WSystem l) x = Some (x\<lparr>ws_system := p\<rparr>)"
      using assms(2) by (subst wstep_system) blast
    then show ?thesis
      by (intro exI [of _ "[WSystem l]"] exI [of _ "x\<lparr>ws_system := p\<rparr>"])
        (simp add: more_delivered_def del: wstep.simps)
  qed
qed

lemma lifts_steps:
  assumes "deliver_inv cfg x" "run_steps (pstep calm_step crd_calm_step) ks (ws_system x) = Some p"
  shows "\<exists>ls x'. run_steps (wstep calm_step crd_calm_step) ls x = Some x' \<and> ws_system x' = p \<and> more_delivered x x'"
  using assms
proof (induction ks arbitrary: x)
  case Nil
  then show ?case by (intro exI [of _ "[]"] exI [of _ x]) (simp add: more_delivered_def)
next
  case (Cons k ks)
  then obtain q where q: "pstep calm_step crd_calm_step k (ws_system x) = Some q"
    "run_steps (pstep calm_step crd_calm_step) ks q = Some p"
    by (auto split: option.splits simp del: pstep.simps)
  obtain ls u where u: "run_steps (wstep calm_step crd_calm_step) ls x = Some u" "ws_system u = q" "more_delivered x u"
    using lifts_step [OF Cons.prems(1) q(1)] by blast
  obtain ms x' where x': "run_steps (wstep calm_step crd_calm_step) ms u = Some x'" "ws_system x' = p" "more_delivered u x'"
    using Cons.IH [OF delivery.run_keeps [OF u(1) Cons.prems(1)]] q(2) u(2) by blast
  then show ?case
    using u by (intro exI [of _ "ls @ ms"] exI [of _ x']) (auto simp: run_steps_append more_delivered_def)
qed

section \<open>Catching up\<close>

lemma program_settles:
  assumes "deliver_inv cfg x" "serving (ds_run (ps_buffer (ws_system x)))" "serving_crd (cs_run (ps_crds (ws_system x)))"
  shows "\<exists>ls x'. run_steps (wstep calm_step crd_calm_step) ls x = Some x' \<and> deliver_inv cfg x' \<and> more_delivered x x' \<and>
    ps_callbacks (ws_system x') = ps_callbacks (ws_system x) \<and>
    stopCh (ps_watcher (ws_system x')) = stopCh (ps_watcher (ws_system x)) \<and>
    ch_dropped (Events (ps_watcher (ws_system x'))) = ch_dropped (Events (ps_watcher (ws_system x))) \<and>
    ch_dropped (CrdEvents (ps_watcher (ws_system x'))) = ch_dropped (CrdEvents (ps_watcher (ws_system x))) \<and>
    settled (ws_system x') \<and> all_sent (Payloads (ds_buf (ps_buffer (ws_system x')))) (ws_sender x') \<and>
    (watchCRDs (ps_watcher (ws_system x)) \<longrightarrow>
       settled_crds (ws_system x') \<and> all_sent (crd_Payloads (cs_buf (ps_crds (ws_system x')))) (ws_crdSender x'))"
proof -
  let ?step = "wstep calm_step crd_calm_step"
  have inv: "compose_inv (ws_system x)" using assms(1) by (simp add: deliver_inv_def)
  obtain ks p where p: "run_steps (pstep calm_step crd_calm_step) ks (ws_system x) = Some p"
    "ps_callbacks p = ps_callbacks (ws_system x)" "stopCh (ps_watcher p) = stopCh (ps_watcher (ws_system x))"
    "ch_dropped (Events (ps_watcher p)) = ch_dropped (Events (ps_watcher (ws_system x)))"
    "ch_dropped (CrdEvents (ps_watcher p)) = ch_dropped (CrdEvents (ps_watcher (ws_system x)))"
    "settled p" "ch_buf (Payloads (ds_buf (ps_buffer p))) = []"
    "watchCRDs (ps_watcher (ws_system x)) \<longrightarrow> settled_crds p \<and> ch_buf (crd_Payloads (cs_buf (ps_crds p))) = []"
    using system_settles [OF inv assms(2,3)] by blast
  obtain ls1 x1 where x1: "run_steps ?step ls1 x = Some x1" "ws_system x1 = p" "more_delivered x x1"
    using lifts_steps [OF assms(1) p(1)] by blast
  have inv1: "deliver_inv cfg x1" using delivery.run_keeps [OF x1(1) assms(1)] .
  obtain ls2 x2 where x2: "run_steps ?step ls2 x1 = Some x2" "ws_system x2 = p" "sd_busy (ws_sender x2) = None"
    "more_delivered x1 x2"
    using frees_sender [OF inv1] x1(2) by auto
  have inv2: "deliver_inv cfg x2" using delivery.run_keeps [OF x2(1) inv1] .
  obtain ls3 x' where x': "run_steps ?step ls3 x2 = Some x'" "ws_system x' = p" "sd_busy (ws_crdSender x') = None"
    "ws_sender x' = ws_sender x2" "more_delivered x2 x'"
    using frees_crdSender [OF inv2] x2(2) by auto
  have "run_steps ?step (ls1 @ ls2 @ ls3) x = Some x'" using x1(1) x2(1) x'(1) by (simp add: run_steps_append)
  moreover have "deliver_inv cfg x'" using delivery.run_keeps [OF x'(1) inv2] .
  moreover have "more_delivered x x'" using x1(3) x2(4) x'(5) by (auto simp: more_delivered_def)
  ultimately show ?thesis using p x'(2-4) x2(3) by (intro exI [of _ "ls1 @ ls2 @ ls3"] exI [of _ x']) (simp add: all_sent_def)
qed

text \<open>A schedule of the composed system is one of the whole program, if the senders take nothing.\<close>

lemma system_steps:
  "run_steps (pstep bstep kstep) ls (ws_system x) = Some p \<Longrightarrow> PBuffer LRecv \<notin> set ls \<Longrightarrow> PCrdBuffer CLRecv \<notin> set ls \<Longrightarrow>
   run_steps (wstep bstep kstep) (map WSystem ls) x = Some (x\<lparr>ws_system := p\<rparr>)"
proof (induction ls arbitrary: x)
  case (Cons l ls)
  then obtain q where q: "pstep bstep kstep l (ws_system x) = Some q" "run_steps (pstep bstep kstep) ls q = Some p"
    by (auto split: option.splits simp del: pstep.simps)
  then have "wstep bstep kstep (WSystem l) x = Some (x\<lparr>ws_system := q\<rparr>)"
    using Cons.prems(2,3) by (subst wstep_system) auto
  with Cons.IH [of "x\<lparr>ws_system := q\<rparr>"] Cons.prems(2,3) q(2) show ?case by (simp del: wstep.simps)
qed simp

text \<open>The sample of \<open>Composition\<close> goes on until its payloads are delivered.\<close>

lemma sample_delivered:
  obtains x where "reach (wstep calm_step crd_calm_step) (wsys_init (roomy_watcher 9996 999) (crd_config 1)) x"
    "settled (ws_system x)" "all_sent (Payloads (ds_buf (ps_buffer (ws_system x)))) (ws_sender x)"
    "settled_crds (ws_system x)" "all_sent (crd_Payloads (cs_buf (ps_crds (ws_system x)))) (ws_crdSender x)"
    "\<not> ch_closed (stopCh (ps_watcher (ws_system x)))" "ch_dropped (Events (ps_watcher (ws_system x))) = []"
    "ch_dropped (CrdEvents (ps_watcher (ws_system x))) = []" "ps_callbacks (ws_system x) = sample_callbacks"
    "list_all delivered (sd_journal (ws_sender x))" "list_all delivered (sd_journal (ws_crdSender x))"
    "deliver_inv (crd_config 1) x"
proof -
  let ?start = "wsys_init (roomy_watcher 9996 999) (crd_config 1)"
  obtain p where p: "run_steps (pstep calm_step crd_calm_step) sample_schedule (ws_system ?start) = Some p"
    "settled p" "\<not> ch_closed (stopCh (ps_watcher p))" "ch_dropped (Events (ps_watcher p)) = []"
    "ps_callbacks p = sample_callbacks" "settled_crds p" "ch_dropped (CrdEvents (ps_watcher p)) = []"
    "watchCRDs (ps_watcher p)"
    by (rule ends_inE [OF sample_schedule_ends [of 9996 999]]) (auto simp: wsys_init_def)
  have "PBuffer LRecv \<notin> set sample_schedule" "PCrdBuffer CLRecv \<notin> set sample_schedule"
    by (auto simp: sample_schedule_def Let_def)
  note x = system_steps [OF p(1) this]
  let ?x = "?start\<lparr>ws_system := p\<rparr>"
  have inv: "deliver_inv (crd_config 1) ?x" using delivery.run_keeps [OF x wsys_init_inv [OF sample_watcher]] .
  have up: "serving (ds_run (ps_buffer (ws_system ?x)))" "serving_crd (cs_run (ps_crds (ws_system ?x)))"
    using p(2,6) by (simp_all add: settled_def settled_crds_def)
  obtain ls x' where x': "run_steps (wstep calm_step crd_calm_step) ls ?x = Some x'" "deliver_inv (crd_config 1) x'"
    "more_delivered ?x x'" "ps_callbacks (ws_system x') = ps_callbacks (ws_system ?x)"
    "stopCh (ps_watcher (ws_system x')) = stopCh (ps_watcher (ws_system ?x))"
    "ch_dropped (Events (ps_watcher (ws_system x'))) = ch_dropped (Events (ps_watcher (ws_system ?x)))"
    "ch_dropped (CrdEvents (ps_watcher (ws_system x'))) = ch_dropped (CrdEvents (ps_watcher (ws_system ?x)))"
    "settled (ws_system x')" "all_sent (Payloads (ds_buf (ps_buffer (ws_system x')))) (ws_sender x')"
    and crds: "watchCRDs (ps_watcher (ws_system ?x)) \<longrightarrow>
       settled_crds (ws_system x') \<and> all_sent (crd_Payloads (cs_buf (ps_crds (ws_system x')))) (ws_crdSender x')"
    using program_settles [OF inv up] by blast
  show thesis
  proof (rule that [OF _ x'(8,9) _ _ _ _ _ _ _ _ x'(2)])
    show "reach (wstep calm_step crd_calm_step) ?start x'"
      using run_steps_reach_from [OF run_steps_reach [OF x] x'(1)] .
  qed (use x' crds p in \<open>simp_all add: more_delivered_def wsys_init_def new_sender_def\<close>)
qed

lemma sample_served:
  assumes "deliver_inv cfg x"
  obtains bodies crd_bodies where "served (InstancesEndpoint cfg) (sd_journal (ws_sender x)) bodies"
    "served (CapabilitiesEndpoint cfg) (sd_journal (ws_crdSender x)) crd_bodies"
proof -
  have ep: "endpoint (New_client ep []) = ep" for ep by (simp add: New_client_def)
  show ?thesis
    using that instance_wire.served_exists [OF deliver_inv_sent(1) [OF assms]] crd_wire.served_exists [OF deliver_inv_sent(2) [OF assms]]
    by (auto simp: ep)
qed

section \<open>The steps of the senders and the sender loop\<close>

definition drain_context :: "(nat \<Rightarrow> bool) \<Rightarrow> nat \<Rightarrow> send_context" where
  "drain_context cancelled i = (if cancelled i then DrainContext else LiveContext)"

definition sender_labels :: "(send_context \<Rightarrow> nat \<Rightarrow> world) \<Rightarrow> (nat \<Rightarrow> bool) \<Rightarrow> nat list \<Rightarrow> wlabel list" where
  "sender_labels worlds cancelled is =
     concat (map (\<lambda>i. let ctx = drain_context cancelled i in [WTake, WPost ctx (worlds ctx i)]) is)"

lemma labels_Cons:
  "sender_labels worlds cancelled (i # is) =
     WTake # WPost (drain_context cancelled i) (worlds (drain_context cancelled i) i) # sender_labels worlds cancelled is"
  by (simp add: sender_labels_def Let_def)

lemma sender_steps:
  assumes "ch_buf (Payloads (ds_buf (ps_buffer (ws_system x)))) = vs" "sd_busy (ws_sender x) = None"
  shows "\<exists>x'. run_steps (wstep dstep cstep) (sender_labels worlds cancelled [n..<n + length vs]) x = Some x' \<and>
    ch_buf (Payloads (ds_buf (ps_buffer (ws_system x')))) = [] \<and> sd_busy (ws_sender x') = None \<and>
    sd_journal (ws_sender x') = sd_journal (ws_sender x) @
      map (\<lambda>(i, p). let ctx = drain_context cancelled i in
             (ctx, p, Send IsEmpty (\<lambda>p. Inr (json_SyncPayload p)) (sd_client (ws_sender x)) (worlds ctx i) (Payload_of p)))
        (zip [n..<n + length vs] vs)"
  using assms
proof (induction vs arbitrary: n x)
  case Nil
  then show ?case by (intro exI [of _ x]) (simp add: sender_labels_def)
next
  case (Cons v vs)
  let ?ctx = "drain_context cancelled n" and ?p = "ws_system x" and ?sd = "ws_sender x"
  let ?c = "(Payloads (ds_buf (ps_buffer ?p)))\<lparr>ch_buf := vs\<rparr>"
  let ?r = "Send IsEmpty (\<lambda>p. Inr (json_SyncPayload p)) (sd_client ?sd) (worlds ?ctx n) (Payload_of v)"
  let ?y = "x\<lparr>ws_system := ?p\<lparr>ps_buffer := (ps_buffer ?p)\<lparr>ds_buf := (ds_buf (ps_buffer ?p))\<lparr>Payloads := ?c\<rparr>\<rparr>\<rparr>,
    ws_sender := ?sd\<lparr>sd_journal := sd_journal ?sd @ [(?ctx, v, ?r)]\<rparr>\<rparr>"
  have recv: "chan_recv (Payloads (ds_buf (ps_buffer ?p))) = Received v ?c" using Cons.prems(1) by (simp add: chan_recv_Received)
  have y: "run_steps (wstep dstep cstep) [WTake, WPost ?ctx (worlds ?ctx n)] x = Some ?y"
    using recv Cons.prems(2) by (simp add: sender_take_def sender_post_def)
  obtain x' where x': "run_steps (wstep dstep cstep) (sender_labels worlds cancelled [Suc n..<Suc n + length vs]) ?y = Some x'"
    "ch_buf (Payloads (ds_buf (ps_buffer (ws_system x')))) = []" "sd_busy (ws_sender x') = None"
    "sd_journal (ws_sender x') = sd_journal (ws_sender ?y) @
      map (\<lambda>(i, p). let ctx = drain_context cancelled i in
             (ctx, p, Send IsEmpty (\<lambda>p. Inr (json_SyncPayload p)) (sd_client (ws_sender ?y)) (worlds ctx i) (Payload_of p)))
        (zip [Suc n..<Suc n + length vs] vs)"
    using Cons.IH [of ?y "Suc n"] Cons.prems(2) by auto
  have z: "[n..<n + length (v # vs)] = n # [Suc n..<Suc n + length vs]" by (simp add: upt_rec)
  have "run_steps (wstep dstep cstep) (sender_labels worlds cancelled [n..<n + length (v # vs)]) x = Some x'"
    using run_steps_append [of "wstep dstep cstep" "[WTake, WPost ?ctx (worlds ?ctx n)]"
        "sender_labels worlds cancelled [Suc n..<Suc n + length vs]" x] y x'(1)
    unfolding z labels_Cons by (simp del: wstep.simps run_steps.simps)
  with x'(2-4) show ?case unfolding z by (intro exI [of _ x']) (simp add: Let_def)
qed

section \<open>Properties\<close>

text \<open>C1. From the informers to the server. In the system \<open>main\<close> builds, watcher, buffers, senders and clients together, on every
  calm schedule, ad-hoc resyncs included, as long as the watcher is not stopped and its event channel has never been full: whenever
  nothing is on its way, the server at the instances endpoint holds for a resource exactly what the informers' callbacks and the
  resyncs, whose objects count as added, describe, the last reported
  metadata if it is not deleted and nothing otherwise (with the keys of its maps in order), provided the last payload about that
  resource was sent without an error and the endpoint itself, not the target of a redirect, gave the answer. This holds however often the server has handled the posts of
  a payload, and whatever became of other payloads: retries do no harm, and a payload that is given up concerns only its own
  resources, until the next payload about them.\<close>

theorem instances_reach_server:
  assumes "NewWatcher u None None cfg = Inr w" "reach (wstep calm_step crd_calm_step) (wsys_init w cfg) x"
    and "p = ws_system x" "settled p" "all_sent (Payloads (ds_buf (ps_buffer p))) (ws_sender x)"
    and "\<not> ch_closed (stopCh (ps_watcher p))" "ch_dropped (Events (ps_watcher p)) = []"
    and "served (InstancesEndpoint cfg) (sd_journal (ws_sender x)) bodies"
    and "last_delivered about_instances (sd_journal (ws_sender x)) i"
  shows "server_state bodies i = map_option canonical (cluster_state (instance_requests (ps_callbacks p)) i)"
  using settled_server [OF reach_deliver_inv [OF assms(2,1)] assms(3-9)] .

theorem instances_reach_server_witness:
  "\<exists>w x bodies. NewWatcher (\<lambda>s. s) None None (crd_config 1) = Inr w \<and>
     reach (wstep calm_step crd_calm_step) (wsys_init w (crd_config 1)) x \<and>
     served (InstancesEndpoint (crd_config 1)) (sd_journal (ws_sender x)) bodies \<and>
     server_state bodies (sample_ID ''Deployment'' ''x'') = Some (canonical (Extract (object_version ''Deployment'' ''x'' ''2''))) \<and>
     server_state bodies (sample_ID ''Service'' ''y'') = None"
proof -
  obtain x where x: "reach (wstep calm_step crd_calm_step) (wsys_init (roomy_watcher 9996 999) (crd_config 1)) x"
    "settled (ws_system x)" "all_sent (Payloads (ds_buf (ps_buffer (ws_system x)))) (ws_sender x)"
    "\<not> ch_closed (stopCh (ps_watcher (ws_system x)))" "ch_dropped (Events (ps_watcher (ws_system x))) = []"
    "ps_callbacks (ws_system x) = sample_callbacks" "list_all delivered (sd_journal (ws_sender x))" "deliver_inv (crd_config 1) x"
    by (rule sample_delivered) blast
  obtain bodies where b: "served (InstancesEndpoint (crd_config 1)) (sd_journal (ws_sender x)) bodies"
    using sample_served [OF x(8)] by blast
  note state = instances_reach_server [OF sample_watcher x(1) refl x(2-5) b all_delivered [OF x(7)], unfolded x(6)]
  have "cluster_state (instance_requests sample_callbacks) (sample_ID ''Deployment'' ''x'') =
      Some (Extract (object_version ''Deployment'' ''x'' ''2''))"
    by code_simp
  moreover have "cluster_state (instance_requests sample_callbacks) (sample_ID ''Service'' ''y'') = None"
    by code_simp
  ultimately show ?thesis
    using sample_watcher x(1) b state by (intro exI [of _ "roomy_watcher 9996 999"] exI [of _ x] exI [of _ bodies]) simp
qed

text \<open>C2. The same for custom resource definitions: under the same conditions for the CRD channel, the server at the capabilities
  endpoint knows a name exactly if the callbacks and resyncs have added a definition of that name and not deleted it since,
  provided the last payload about the name was sent without an error and the endpoint itself gave the answer.\<close>

theorem crds_reach_server:
  assumes "NewWatcher u None None cfg = Inr w" "reach (wstep calm_step crd_calm_step) (wsys_init w cfg) x"
    and "p = ws_system x" "settled_crds p" "all_sent (crd_Payloads (cs_buf (ps_crds p))) (ws_crdSender x)"
    and "\<not> ch_closed (stopCh (ps_watcher p))" "ch_dropped (CrdEvents (ps_watcher p)) = []"
    and "served (CapabilitiesEndpoint cfg) (sd_journal (ws_crdSender x)) bodies"
    and "last_delivered about_crds (sd_journal (ws_crdSender x)) n"
  shows "n \<in> crd_server_state bodies \<longleftrightarrow> n \<in> crd_state (crd_requests (ps_callbacks p))"
  using settled_crd_server [OF reach_deliver_inv [OF assms(2,1)] assms(3-9)] .

theorem crds_reach_server_witness:
  "\<exists>w x bodies. NewWatcher (\<lambda>s. s) None None (crd_config 1) = Inr w \<and>
     reach (wstep calm_step crd_calm_step) (wsys_init w (crd_config 1)) x \<and>
     served (CapabilitiesEndpoint (crd_config 1)) (sd_journal (ws_crdSender x)) bodies \<and>
     ''issuers.cert-manager.io'' \<in> crd_server_state bodies"
proof -
  obtain x where x: "reach (wstep calm_step crd_calm_step) (wsys_init (roomy_watcher 9996 999) (crd_config 1)) x"
    "settled_crds (ws_system x)" "all_sent (crd_Payloads (cs_buf (ps_crds (ws_system x)))) (ws_crdSender x)"
    "\<not> ch_closed (stopCh (ps_watcher (ws_system x)))" "ch_dropped (CrdEvents (ps_watcher (ws_system x))) = []"
    "ps_callbacks (ws_system x) = sample_callbacks" "list_all delivered (sd_journal (ws_crdSender x))" "deliver_inv (crd_config 1) x"
    by (rule sample_delivered) blast
  obtain bodies where b: "served (CapabilitiesEndpoint (crd_config 1)) (sd_journal (ws_crdSender x)) bodies"
    using sample_served [OF x(8)] by blast
  note state = crds_reach_server [OF sample_watcher x(1) refl x(2-5) b all_delivered [OF x(7)], unfolded x(6)]
  have "crd_state (crd_requests sample_callbacks) = {''issuers.cert-manager.io''}"
    by code_simp
  then show ?thesis
    using sample_watcher x(1) b state by (intro exI [of _ "roomy_watcher 9996 999"] exI [of _ x] exI [of _ bodies]) simp
qed

text \<open>C3. Eventual consistency of the whole program. From every state the program reaches on a calm schedule, as long as neither
  \<open>Run\<close> has seen the shutdown, the watcher is not stopped, no event was given up because a channel was full and every
  payload so far was delivered, watcher, buffers and senders can go on, without a further callback or resync, without a stop of the
  watcher and without the flush of a shutdown, until nothing is on its way and \<open>Run\<close> waits in its select again, and then
  the server at the instances endpoint, however often it has handled the requests, holds exactly the state the callbacks describe,
  and, when the CRD pipeline runs, the server at the capabilities endpoint knows exactly the names of the definitions
  that are left. No event, no pending entry and no payload is stuck in any reachable state.\<close>

theorem servers_catch_up:
  assumes "NewWatcher u None None cfg = Inr w" "reach (wstep calm_step crd_calm_step) (wsys_init w cfg) x" "p = ws_system x"
    and "serving (ds_run (ps_buffer p))" "serving_crd (cs_run (ps_crds p))" "\<not> ch_closed (stopCh (ps_watcher p))"
    and "ch_dropped (Events (ps_watcher p)) = []" "ch_dropped (CrdEvents (ps_watcher p)) = []"
    and "list_all delivered (sd_journal (ws_sender x))" "list_all delivered (sd_journal (ws_crdSender x))"
  shows "\<exists>ls x'. run_steps (wstep calm_step crd_calm_step) ls x = Some x' \<and>
    ps_callbacks (ws_system x') = ps_callbacks p \<and> \<not> ch_closed (stopCh (ps_watcher (ws_system x'))) \<and>
    settled (ws_system x') \<and> all_sent (Payloads (ds_buf (ps_buffer (ws_system x')))) (ws_sender x') \<and>
    (\<exists>bodies. served (InstancesEndpoint cfg) (sd_journal (ws_sender x')) bodies) \<and>
    (\<forall>bodies. served (InstancesEndpoint cfg) (sd_journal (ws_sender x')) bodies \<longrightarrow>
       server_state bodies = map_option canonical \<circ> cluster_state (instance_requests (ps_callbacks p))) \<and>
    (watchCRDs (ps_watcher p) \<longrightarrow>
       settled_crds (ws_system x') \<and> all_sent (crd_Payloads (cs_buf (ps_crds (ws_system x')))) (ws_crdSender x') \<and>
       (\<exists>bodies. served (CapabilitiesEndpoint cfg) (sd_journal (ws_crdSender x')) bodies) \<and>
       (\<forall>bodies. served (CapabilitiesEndpoint cfg) (sd_journal (ws_crdSender x')) bodies \<longrightarrow>
          crd_server_state bodies = crd_state (crd_requests (ps_callbacks p))))"
proof -
  have inv: "deliver_inv cfg x" using reach_deliver_inv [OF assms(2,1)] .
  obtain ls x' where x': "run_steps (wstep calm_step crd_calm_step) ls x = Some x'" "deliver_inv cfg x'" "more_delivered x x'"
    "ps_callbacks (ws_system x') = ps_callbacks (ws_system x)"
    "stopCh (ps_watcher (ws_system x')) = stopCh (ps_watcher (ws_system x))"
    "ch_dropped (Events (ps_watcher (ws_system x'))) = ch_dropped (Events (ps_watcher (ws_system x)))"
    "ch_dropped (CrdEvents (ps_watcher (ws_system x'))) = ch_dropped (CrdEvents (ps_watcher (ws_system x)))"
    "settled (ws_system x')" "all_sent (Payloads (ds_buf (ps_buffer (ws_system x')))) (ws_sender x')"
    and crds: "watchCRDs (ps_watcher (ws_system x)) \<longrightarrow>
       settled_crds (ws_system x') \<and> all_sent (crd_Payloads (cs_buf (ps_crds (ws_system x')))) (ws_crdSender x')"
    using program_settles [OF inv assms(4,5) [unfolded assms(3)]] by blast
  note x' = x' [folded assms(3), unfolded assms(7,8)]
  have crds: "settled_crds (ws_system x')" "all_sent (crd_Payloads (cs_buf (ps_crds (ws_system x')))) (ws_crdSender x')"
    if "watchCRDs (ps_watcher p)"
    using crds that assms(3) by simp_all
  have open_x': "\<not> ch_closed (stopCh (ps_watcher (ws_system x')))" using x'(5) assms(6) by simp
  have all: "list_all delivered (sd_journal (ws_sender x'))" "list_all delivered (sd_journal (ws_crdSender x'))"
    using x'(3) assms(9,10) by (simp_all add: more_delivered_def)
  have ep: "endpoint (New_client ep []) = ep" for ep by (simp add: New_client_def)
  have "\<exists>bodies. served (InstancesEndpoint cfg) (sd_journal (ws_sender x')) bodies"
    "\<exists>bodies. served (CapabilitiesEndpoint cfg) (sd_journal (ws_crdSender x')) bodies"
    using instance_wire.served_exists [OF deliver_inv_sent(1) [OF x'(2)]] crd_wire.served_exists [OF deliver_inv_sent(2) [OF x'(2)]]
    by (simp_all add: ep)
  moreover have "server_state bodies = map_option canonical \<circ> cluster_state (instance_requests (ps_callbacks p))"
    if "served (InstancesEndpoint cfg) (sd_journal (ws_sender x')) bodies" for bodies
    using settled_server [OF x'(2) refl x'(8,9) open_x' x'(6) that all_delivered [OF all(1)]] x'(4) by (simp add: fun_eq_iff)
  moreover have "crd_server_state bodies = crd_state (crd_requests (ps_callbacks p))"
    if "watchCRDs (ps_watcher p)" "served (CapabilitiesEndpoint cfg) (sd_journal (ws_crdSender x')) bodies" for bodies
    using settled_crd_server [OF x'(2) refl crds [OF that(1)] open_x' x'(7) that(2) all_delivered [OF all(2)]] x'(4) by auto
  ultimately show ?thesis using x'(1,4,8,9) crds open_x' by (intro exI [of _ ls] exI [of _ x']) simp
qed

theorem servers_catch_up_witness:
  "\<exists>w x x'. NewWatcher (\<lambda>s. s) None None (crd_config 1) = Inr w \<and>
     reach (wstep calm_step crd_calm_step) (wsys_init w (crd_config 1)) x \<and>
     ps_callbacks (ws_system x) = sample_callbacks \<and> sd_journal (ws_sender x) = [] \<and>
     reach (wstep calm_step crd_calm_step) x x' \<and>
     (\<exists>bodies. served (InstancesEndpoint (crd_config 1)) (sd_journal (ws_sender x')) bodies \<and>
        server_state bodies = map_option canonical \<circ> cluster_state (instance_requests sample_callbacks))"
proof -
  let ?start = "wsys_init (roomy_watcher 9996 999) (crd_config 1)"
  obtain p where p: "run_steps (pstep calm_step crd_calm_step) (map (PCallback False) sample_callbacks) (ws_system ?start) = Some p"
    "serving (ds_run (ps_buffer p))" "serving_crd (cs_run (ps_crds p))" "\<not> ch_closed (stopCh (ps_watcher p))"
    "ch_dropped (Events (ps_watcher p)) = []" "ch_dropped (CrdEvents (ps_watcher p)) = []" "ps_callbacks p = sample_callbacks"
    by (rule ends_inE [OF sample_callbacks_end [of 9996 999]]) (auto simp: wsys_init_def)
  have "PBuffer LRecv \<notin> set (map (PCallback False) sample_callbacks)"
    "PCrdBuffer CLRecv \<notin> set (map (PCallback False) sample_callbacks)" by auto
  note r = run_steps_reach [OF system_steps [OF p(1) this]]
  have j: "sd_journal (ws_sender (?start\<lparr>ws_system := p\<rparr>)) = []" "sd_journal (ws_crdSender (?start\<lparr>ws_system := p\<rparr>)) = []"
    by (simp_all add: wsys_init_def new_sender_def)
  have p_eq: "p = ws_system (?start\<lparr>ws_system := p\<rparr>)" by simp
  have "list_all delivered (sd_journal (ws_sender (?start\<lparr>ws_system := p\<rparr>)))"
    "list_all delivered (sd_journal (ws_crdSender (?start\<lparr>ws_system := p\<rparr>)))"
    unfolding j by simp_all
  from servers_catch_up [OF sample_watcher r p_eq p(2-6) this] obtain ls x' bodies where
    "run_steps (wstep calm_step crd_calm_step) ls (?start\<lparr>ws_system := p\<rparr>) = Some x'"
    "served (InstancesEndpoint (crd_config 1)) (sd_journal (ws_sender x')) bodies"
    "server_state bodies = map_option canonical \<circ> cluster_state (instance_requests sample_callbacks)"
    unfolding p(7) by blast
  then show ?thesis
    using sample_watcher r j(1) p(7) run_steps_reach
    by (intro exI [of _ "roomy_watcher 9996 999"] exI [of _ "?start\<lparr>ws_system := p\<rparr>"] exI [of _ x'] conjI exI [of _ bodies]) auto
qed

text \<open>C27. The steps of the sender are the sender loop: from any state in which the sender waits for a payload, taking and posting
  the payloads of the channel one after the other, under the live context before and a drain context after the cancellation, ends with
  an empty channel and exactly the calls of \<open>Send\<close> that the \<open>Start\<close> method of the sender runnable makes.\<close>

theorem sender_steps_are_loop:
  assumes "sd_busy (ws_sender x) = None" "d = ds_buf (ps_buffer (ws_system x))"
    and "Start_sender (sd_client (ws_sender x)) worlds cancelled d = (e, journal)"
  shows "\<exists>x'. run_steps (wstep dstep cstep) (sender_labels worlds cancelled [0..<length (ch_buf (Payloads d))]) x = Some x' \<and>
    sd_journal (ws_sender x') = sd_journal (ws_sender x) @ journal \<and>
    all_sent (Payloads (ds_buf (ps_buffer (ws_system x')))) (ws_sender x') \<and>
    (e = LoopReturned \<longleftrightarrow> ch_closed (Payloads d))"
proof -
  have "e = (if ch_closed (Payloads d) then LoopReturned else LoopWaits)"
    "journal = map (\<lambda>(i, p). let ctx = drain_context cancelled i in
       (ctx, p, Send IsEmpty (\<lambda>p. Inr (json_SyncPayload p)) (sd_client (ws_sender x)) (worlds ctx i) (Payload_of p)))
         (zip [0..<0 + length (ch_buf (Payloads d))] (ch_buf (Payloads d)))"
    using assms(3) by (simp_all add: Start_sender_def runSenderLoop_result drain_context_def)
  with sender_steps [OF assms(2) [symmetric, THEN arg_cong, of "\<lambda>d. ch_buf (Payloads d)"] assms(1), of worlds cancelled 0]
  show ?thesis by (auto simp: all_sent_def)
qed

text \<open>Two payloads wait, and the context is cancelled before the second.\<close>

definition two_payloads :: "Config \<Rightarrow> DebounceBuffer" where
  "two_payloads cfg =
     emitPayload \<lparr>Upserts = [], Deletes = [''b'']\<rparr> (emitPayload \<lparr>Upserts = [], Deletes = [''a'']\<rparr> (NewDebounceBuffer cfg))"

theorem sender_steps_are_loop_witness:
  "\<exists>x' x. ds_buf (ps_buffer (ws_system x)) = two_payloads (crd_config 1) \<and>
     run_steps (wstep dstep cstep) (sender_labels (\<lambda>_ _. answering) (\<lambda>i. 0 < i) [0, 1]) x = Some x' \<and>
     map (\<lambda>(ctx, p, r). (ctx, Deletes p)) (sd_journal (ws_sender x')) = [(LiveContext, [''a'']), (DrainContext, [''b''])]"
proof -
  let ?start = "wsys_init (roomy_watcher 0 0) (crd_config 1)" and ?d = "two_payloads (crd_config 1)"
  let ?x = "?start\<lparr>ws_system := (ws_system ?start)\<lparr>ps_buffer := dsys_init ?d\<rparr>\<rparr>"
  have x: "sd_busy (ws_sender ?x) = None" "?d = ds_buf (ps_buffer (ws_system ?x))" "sd_journal (ws_sender ?x) = []"
    by (simp_all add: wsys_init_def new_sender_def dsys_init_def)
  have buf: "ch_buf (Payloads ?d) = [\<lparr>Upserts = [], Deletes = [''a'']\<rparr>, \<lparr>Upserts = [], Deletes = [''b'']\<rparr>]"
    by (simp add: two_payloads_def emitPayload_def NewDebounceBuffer_def chan_send_nb_def chan_room_def)
  obtain e journal where l: "Start_sender (sd_client (ws_sender ?x)) (\<lambda>_ _. answering) (\<lambda>i. 0 < i) ?d = (e, journal)"
    by (cases "Start_sender (sd_client (ws_sender ?x)) (\<lambda>_ _. answering) (\<lambda>i. 0 < i) ?d")
  have j: "map (\<lambda>(ctx, p, r). (ctx, Deletes p)) journal = [(LiveContext, [''a'']), (DrainContext, [''b''])]"
    using l unfolding Start_sender_def runSenderLoop_result buf by (auto simp: Let_def upt_rec)
  have "[0..<length (ch_buf (Payloads ?d))] = [0, 1]" unfolding buf by (simp add: upt_rec)
  with sender_steps_are_loop [OF x(1,2) l] obtain x' where
    "run_steps (wstep dstep cstep) (sender_labels (\<lambda>_ _. answering) (\<lambda>i. 0 < i) [0, 1]) ?x = Some x'"
    "sd_journal (ws_sender x') = journal"
    unfolding x(3) by auto
  then show ?thesis using j x(2) by (intro exI [of _ x'] exI [of _ ?x]) simp
qed

end
