(* ===== verification/Stale_Server.thy ===== *)
theory Stale_Server
  imports Delivery_Properties
begin

text \<open>
  What the program does not repair. A payload whose \<open>Send\<close> fails is not sent again: a server that was down while it was posted
  stays without its resources, and nothing the running program does by itself, the periodic resync of the informers included,
  changes that. Only a further change of the resource or an ad-hoc resync does.
\<close>

section \<open>A program at rest\<close>










section \<open>The server is down once\<close>







end
