(* ===== verification/Spec2Isabelle.thy ===== *)
theory Spec2Isabelle
  imports Metadata_Properties Pipeline_Properties Crd_Properties Watcher_Invariant Stale_Server
begin

text \<open>
  A verification library for the controller that mirrors the metadata of a Kubernetes cluster into a
  vector database.

  \<^bold>\<open>The program and its parts.\<close> \<open>main\<close> (\<open>src/cmd/main.go\<close>) reads the configuration from the environment, creates a
  watcher, an instance debounce buffer and a REST client for it, the same two parts again for custom resource definitions
  (CRDs) if a capabilities endpoint is set, and an API server, and hands all of them to the manager. The watcher discovers the
  resource types, filters them, and turns informer callbacks into events on two channels. Each buffer receives
  events, keeps one pending entry per resource with a timer, forwards deletes at once, and emits batches on a payload channel. A
  sender loop posts the payloads with retries. The API server triggers a resync of the watcher.

  \<^bold>\<open>The theories.\<close>

  \<^item> \<open>Prelude\<close>: Go maps as association lists, reachability over step functions, schedules (\<open>run_steps\<close>), and the
    locale \<open>invariant_system\<close>, whose interpretations give every invariant of this library in every reachable state.
  \<^item> \<open>Go_Strings\<close>, \<open>Go_Runtime\<close>, \<open>Go_Time\<close>: what the code uses of \<open>strings\<close> and \<open>strconv\<close>, of channels (with the histories
    \<open>ch_sent\<close> and \<open>ch_dropped\<close>, and \<open>ch_panic\<close> for a send on or a close of a closed channel) and \<open>time.AfterFunc\<close>, and of
    \<open>Time.Format\<close>. The locale \<open>payload_sink\<close> is the contract of \<open>emitPayload\<close> and \<open>closePayloads\<close>; both buffers interpret it.
  \<^item> \<open>Metadata\<close> and \<open>Metadata_Properties\<close>: \<open>src/internal/metadata/extract.go\<close>. Identifiers are unique (C30), annotations are
    filtered by prefix (C31), the creation time survives (C32).
  \<^item> \<open>Config\<close>: \<open>src/internal/config/config.go\<close>, durations as 64-bit words (C34). \<open>Resource_Filter\<close>: \<open>src/internal/filter/filter.go\<close>.
  \<^item> \<open>Watcher\<close>, \<open>Watcher_Properties\<close>, \<open>Watcher_Invariant\<close>: \<open>src/internal/controller/watcher.go\<close>. The watcher stays well formed
    (C18), routing (C19), when a callback blocks (C20), the resync (C21), change detection (C29, C40).
  \<^item> \<open>Buffer_Spec\<close>, \<open>Buffer_Invariants\<close>, \<open>Replica\<close>, \<open>Buffer_Replica\<close>, \<open>Buffer_Progress\<close>, \<open>Buffer_Window\<close>: the abstract
    specification of a debounce buffer, over any type of values: the state \<open>bstate\<close> and the moves \<open>bmove\<close> an implementation may
    make. The invariants, the convergence of the receiver and the progress of pending entries are proved here, once.
  \<^item> \<open>Buffer_Refinement\<close>: the locale \<open>buffer_impl\<close>, what it means to implement the specification (every step of the code's model is
    a move, every move that is not the arrival of an event is a step), and what every implementation inherits.
  \<^item> \<open>Debounce\<close>, \<open>Debounce_Lemmas\<close>, \<open>Debounce_Refinement\<close>, \<open>Debounce_Replica\<close>, \<open>Debounce_Properties\<close>:
    \<open>src/internal/controller/debounce.go\<close>. Every method is a function; \<open>dstep\<close> interleaves the goroutine of \<open>Run\<close>, the timer
    goroutines, the clock and the consumer between critical sections, and implements the specification under \<open>dabs\<close>. Liveness
    (C5), safety of the channel (C6), last state wins (C7), well-formed payloads (C8), the refinement of the specification, with the
    methods of the code among the behaviours (C13), one flush (C28), and the ways in which the buffer departs from its
    documentation (C36, and from every state in which they can begin C37 and C38).
  \<^item> \<open>Crd_Debounce\<close>, \<open>Crd_Lemmas\<close>, \<open>Crd_Refinement\<close>, \<open>Crd_Replica\<close>, \<open>Crd_Window\<close>, \<open>Crd_Properties\<close>:
    \<open>src/internal/controller/crd_debounce.go\<close>, a second implementation of the same specification (C14), its channel and payloads (C17),
    and the generation counter that protects the debounce window (C9).
  \<^item> \<open>Rest_Client\<close>, \<open>Rest_Properties\<close>: \<open>src/internal/client/rest.go\<close>. \<open>httpClient.Do\<close> follows redirects as \<open>net/http\<close> documents them. The
    retry loop against the retry policy (C10), what it does to the network, redirects included (C24), the backoff in binary64 arithmetic (C25), the options (C26). The locale \<open>sendable\<close> is the
    interface \<open>Payload\<close>; both payload types interpret it.
  \<^item> \<open>Wire_Format\<close>: the JSON values of the payloads, by the tags of their structs (C33).
  \<^item> \<open>Api_Server\<close>: \<open>src/internal/api/server.go\<close> on the \<open>ServeMux\<close> of Go 1.26, the version of \<open>go.mod\<close> (C22). The locale \<open>resyncer\<close> is the interface \<open>Resyncer\<close>, interpreted by the watcher.
  \<^item> \<open>Pipeline\<close>, \<open>Pipeline_Properties\<close>: the flags, what \<open>main\<close> builds (C23), the sender loop (C11), the way from the events to the
    receiver at shutdown (C4, C15), and where the program departs from its documentation (C39).
  \<^item> \<open>Composition\<close>, \<open>Composition_Liveness\<close>: the watcher, the two event channels and both buffers as one system, with the
    callbacks of the informers and the rounds of the resyncs the API server triggers. The locale
    \<open>consumer\<close> is what the composition needs of a buffer, \<open>live_consumer\<close> what it needs to empty the channels.
  \<^item> \<open>At_Least_Once\<close>: what a server makes of posts that may be repeated. The locale \<open>wire_format\<close> extends \<open>sendable\<close> by what
    the server reads; both payload types interpret it.
  \<^item> \<open>Delivery\<close>, \<open>Delivery_Properties\<close>: the composed system with both senders and their clients, up to the servers. Whenever nothing
    is on its way the servers hold what the callbacks and resyncs describe (C1, C2), from every reachable state the program can get
    there (C3), and the steps of the senders are the sender loop (C27). \<open>Stale_Server\<close>: a payload that is given up is not repaired by
    the periodic resync (C16).
  \<^item> this theory: configuration, filter and discovery together (C12), and configuration and the ticker of \<open>Run\<close> (C35).

  \<^bold>\<open>Abstract specifications.\<close> \<open>cluster_state\<close> is the map from identifiers to instances that a list of events describes,
  \<open>replica\<close> the one a receiver computes from a list of payloads, \<open>server_state\<close> the one a server computes from the bodies it has
  handled (\<open>served\<close>: a payload at least once if \<open>Send\<close> returned without an error and the endpoint itself gave the answer, not the
  target of a redirect, and otherwise any number of times); \<open>crd_state\<close>, \<open>crd_replica\<close> and \<open>crd_server_state\<close> are the same for names of
  definitions. C1 to C4 and C15 say that the pipelines compute the last from the first. An object that an ad-hoc resync emits counts
  as added. They hold on \<open>calm\<close> schedules, which
  exclude exactly three things a buffer can do or meet: a full payload channel, an event that changes a resource that a timer goroutine holds between
  collect and emit, and a shutdown while a timer goroutine holds a batch. C36 and C38 show that the last two are needed. C1 to C3 suppose besides that the watcher runs and that its event channels have
  dropped nothing. C5 to C9,
  C13, C14 and C17 hold on all schedules.

  \<^bold>\<open>Modelling.\<close> A mutex makes a critical section atomic, so the systems take one step per critical section. The order of
  a range over a map, the choice of a \<open>select\<close> with several ready cases, the scheduling of goroutines, the passing of
  time, the answers of the network, redirects included, and of the Kubernetes API, and the random number are arguments or labels, and the
  theorems quantify over them. Generations are \<^typ>\<open>64 word\<close>; C9 needs fewer than \<open>2 ^ 64\<close> adds. A blocking send that does not
  go through is \<^term>\<open>None\<close>. A sender takes a payload in one step and posts it, with all its attempts, in another; the
  clock and the context of an attempt are in its world. The only loops that are not structural recursions, \<open>runSenderLoop\<close> and
  the trimming of spaces, have a termination proof; the retry loop recurses on the attempts that are left, which \<open>attempts\<close> computes
  with the wrap-around of the code. No definition uses fuel.

  \<^bold>\<open>Not modelled.\<close> The parsing of the command line and the logging set-up of \<open>main\<close>; the manager of controller-runtime and its
  leader election; the informers of client-go (their callbacks are arguments of the composed system); the text rendering of JSON,
  and with it the replacement of invalid UTF-8 by \<open>encoding/json\<close> (the strings of Kubernetes objects are valid UTF-8, since the
  API server delivers them as JSON or protobuf); the HTTP server and client below a request and a response, that is connections,
  time-outs and headers; what the servers do with a body beyond keeping its upserts and
  removing its deletes; the test utilities, the mock server and the deployment files.
\<close>

section \<open>Properties that span components\<close>

text \<open>The lower-cased, trimmed entries of a list setting, and when one of them names a resource.\<close>

definition setting_names :: "(string \<Rightarrow> string) \<Rightarrow> string \<Rightarrow> string set" where
  "setting_names u val =
     {ToLower u (TrimSpace (TrimSpace (ToLower u p))) | p. p \<in> set (Split val CHR '','') \<and> TrimSpace (ToLower u p) \<noteq> []}"

lemma CSV_set:
  "env key \<noteq> [] \<Longrightarrow>
   set (envCSVOrDefault u env key d) =
     {t. t \<noteq> []} \<inter> (\<lambda>p. TrimSpace (ToLower u p)) ` set (Split (env key) CHR '','')"
  by (simp add: envCSVOrDefault_def csv_loop_eq Let_def Collect_conj_eq Int_commute)

lemma setting_names_image:
  "setting_names u val =
     (\<lambda>t. ToLower u (TrimSpace t)) ` ({t. t \<noteq> []} \<inter> (\<lambda>p. TrimSpace (ToLower u p)) ` set (Split val CHR '',''))"
  unfolding setting_names_def by blast

lemma CSV_setting_names:
  assumes "env key \<noteq> []"
  shows "(\<exists>t \<in> set (envCSVOrDefault u env key d). ToLower u (TrimSpace t) = n) \<longleftrightarrow> n \<in> setting_names u (env key)"
  unfolding CSV_set [of env key, OF assms] setting_names_image by blast

lemma CSV_unset: "env key = [] \<Longrightarrow> envCSVOrDefault u env key d = d"
  by (simp add: envCSVOrDefault_def)

lemma CSV_no_names:
  assumes "env key \<noteq> []"
  shows "envCSVOrDefault u env key d = [] \<longleftrightarrow> setting_names u (env key) = {}"
  unfolding setting_names_image image_is_empty CSV_set [of env key u d, OF assms, symmetric] by simp

lemma default_names:
  "(\<exists>t \<in> set DefaultExclusions. ToLower u (TrimSpace t) = n) \<longleftrightarrow> n \<in> set DefaultExclusions"
proof -
  have "\<forall>t \<in> set DefaultExclusions. ToLower u (TrimSpace t) = t"
    unfolding DefaultExclusions_def by code_simp
  then show ?thesis by auto
qed

text \<open>C12. Configuration, filter and discovery together: which types the started watcher watches, in terms of the environment.
  A listed resource is watched exactly when its group and version parse, it is not a subresource, it supports
  \<open>list\<close> and \<open>watch\<close>, and: if \<open>WATCH_RESOURCE_TYPES\<close> has an entry, one of its entries is the resource's name; otherwise no entry of
  \<open>EXCLUDE_RESOURCE_TYPES\<close> is, or, when that is not set, the name is not one of the default exclusions. Custom
  resource definitions are watched besides exactly when \<open>CAPABILITIES_ENDPOINT\<close> is set.\<close>

theorem environment_decides_watched_types:
  assumes "NewWatcher u None None (Load u env) = Inr w"
  shows "set (watchedGVRs (Start_watcher u parseGV resourceLists handlerErr w)) =
    {\<lparr>gvr_Group = fst gv, gvr_Version = snd gv, gvr_Resource = ar_Name r\<rparr> | gv r.
       \<exists>s rs. (s, rs) \<in> set resourceLists \<and> parseGV s = Some gv \<and> r \<in> set rs \<and> CHR ''/'' \<notin> set (ar_Name r) \<and>
         ''list'' \<in> set (ar_Verbs r) \<and> ''watch'' \<in> set (ar_Verbs r) \<and>
         (let name = ToLower u (ar_Name r); watch = env ''WATCH_RESOURCE_TYPES''; exclude = env ''EXCLUDE_RESOURCE_TYPES''
          in if watch \<noteq> [] \<and> setting_names u watch \<noteq> {} then name \<in> setting_names u watch
             else if exclude \<noteq> [] then name \<notin> setting_names u exclude
             else name \<notin> set DefaultExclusions)} \<union>
    (if env ''CAPABILITIES_ENDPOINT'' \<noteq> [] then {crdGVR} else {})"
proof -
  let ?watch = "WatchResourceTypes (Load u env)" and ?exclude = "ExcludeResourceTypes (Load u env)"
  have w: "w_filter w = New_filter u ?watch ?exclude" "watchCRDs w \<longleftrightarrow> env ''CAPABILITIES_ENDPOINT'' \<noteq> []"
    using assms by (auto simp: NewWatcher_def Load_def envOrDefault_def Let_def)
  have "?watch \<noteq> [] \<longleftrightarrow> env ''WATCH_RESOURCE_TYPES'' \<noteq> [] \<and> setting_names u (env ''WATCH_RESOURCE_TYPES'') \<noteq> {}"
    by (cases "env ''WATCH_RESOURCE_TYPES'' = []") (auto simp: Load_def CSV_unset CSV_no_names)
  moreover have "(\<exists>t \<in> set ?watch. ToLower u (TrimSpace t) = n) \<longleftrightarrow> n \<in> setting_names u (env ''WATCH_RESOURCE_TYPES'')"
    if "env ''WATCH_RESOURCE_TYPES'' \<noteq> []" for n
    using that by (simp add: Load_def CSV_setting_names)
  moreover have "(\<exists>t \<in> set ?exclude. ToLower u (TrimSpace t) = n) \<longleftrightarrow>
      (if env ''EXCLUDE_RESOURCE_TYPES'' \<noteq> [] then n \<in> setting_names u (env ''EXCLUDE_RESOURCE_TYPES'')
       else n \<in> set DefaultExclusions)" for n
    using default_names [of u n] by (simp add: Load_def CSV_setting_names CSV_unset DefaultExclusions_def)
  ultimately show ?thesis
    by (simp add: Start_watcher_def Let_def discoverResources_set w ShouldWatch_iff cong: conj_cong)
qed

theorem environment_decides_watched_types_witness:
  "\<exists>w. NewWatcher id None None (Load id (\<lambda>_. '''')) = Inr w \<and>
     set (watchedGVRs (Start_watcher id (\<lambda>s. if s = ''v1'' then Some ('''', ''v1'') else None)
       [(''v1'', [\<lparr>ar_Name = ''pods'', ar_Verbs = [''list'', ''watch'']\<rparr>, \<lparr>ar_Name = ''pods/log'', ar_Verbs = [''get'']\<rparr>,
          \<lparr>ar_Name = ''events'', ar_Verbs = [''list'', ''watch'']\<rparr>])] (\<lambda>_. False) w)) =
     {\<lparr>gvr_Group = '''', gvr_Version = ''v1'', gvr_Resource = ''pods''\<rparr>}"
proof -
  obtain w where w: "NewWatcher id None None (Load id (\<lambda>_. '''')) = Inr w" by (simp add: NewWatcher_def)
  have l: "ToLower id ''pods'' = ''pods''" "ToLower id ''events'' = ''events''" by code_simp+
  show ?thesis
    by (intro exI [of _ w] conjI w, unfold environment_decides_watched_types [OF w] Let_def)
      (auto simp: l DefaultExclusions_def intro!: exI [of _ "\<lparr>ar_Name = ''pods'', ar_Verbs = [''list'', ''watch'']\<rparr>"])
qed

text \<open>C35. Configuration and the two \<open>Run\<close> methods together: a flush interval written in decimal, whose number of
  nanoseconds fits in 64 bits, lets both buffers start exactly when it is positive; with zero or a negative number \<open>time.NewTicker\<close>
  panics in both. \<open>Load\<close> does not reject such a value.\<close>

theorem flush_interval_must_be_positive:
  assumes "env ''BATCH_FLUSH_INTERVAL_MS'' = Itoa n" "\<bar>n\<bar> \<le> 9223372036854"
  shows "(Run_ticker (NewDebounceBuffer (Load u env)) = Inr () \<longleftrightarrow> 0 < n) \<and>
    (Run_ticker_crd (NewCrdDebounceBuffer (Load u env)) = Inr () \<longleftrightarrow> 0 < n)"
proof -
  have "envIntOrDefault env ''BATCH_FLUSH_INTERVAL_MS'' 5000 = n"
    using assms by (simp add: envIntOrDefault_Itoa min_int_def max_int_def)
  then have "sint (BatchFlushInterval (Load u env)) = n * 1000000"
    using assms(2) by (simp add: Load_def envDurationMsOrDefault_def envDuration_values min_int_def max_int_def)
  then show ?thesis
    by (auto simp: Run_ticker_def Run_ticker_crd_def NewDebounceBuffer_def NewCrdDebounceBuffer_def)
qed

theorem flush_interval_must_be_positive_witness:
  "Run_ticker (NewDebounceBuffer (Load id (\<lambda>k. if k = ''BATCH_FLUSH_INTERVAL_MS'' then ''0'' else ''''))) \<noteq> Inr ()"
proof -
  have "Itoa 0 = ''0''" by (simp add: Itoa_def nat_digits.simps digit_char_def char_of_def bit_iff_odd)
  then show ?thesis
    using flush_interval_must_be_positive
      [where n = 0 and u = id and env = "\<lambda>k. if k = ''BATCH_FLUSH_INTERVAL_MS'' then ''0'' else ''''"]
    by simp
qed

end
